theory Spec2Isabelle
  imports
    Complex_Main
    "HOL-Library.FSet"
    "HOL-Library.Sublist"
    "HOL-Library.Char_ord"
    "HOL-Library.List_Lexorder"
begin

section \<open>Strings\<close>

text \<open>
  Python strings are modelled as \<^typ>\<open>string\<close>; the character with number \<open>n\<close> is the
  Unicode code point \<open>n\<close>, so a string holds code points U+0000 to U+00FF. The functions
  below are the methods of \<^verbatim>\<open>str\<close> on such strings. Where a method can leave that range
  (\<^verbatim>\<open>str.title()\<close>), its result is a list of code points.
\<close>

definition ord :: "char \<Rightarrow> nat" where
  "ord c = of_char c"

text \<open>The ASCII letters and digits: \<^verbatim>\<open>c.isascii() and c.isalpha()\<close> is \<open>is_alpha\<close>.\<close>

definition is_upper :: "char \<Rightarrow> bool" where
  "is_upper c = (65 \<le> ord c \<and> ord c \<le> 90)"

definition is_lower :: "char \<Rightarrow> bool" where
  "is_lower c = (97 \<le> ord c \<and> ord c \<le> 122)"

definition is_alpha :: "char \<Rightarrow> bool" where
  "is_alpha c = (is_upper c \<or> is_lower c)"

definition is_digit :: "char \<Rightarrow> bool" where
  "is_digit c = (48 \<le> ord c \<and> ord c \<le> 57)"

text \<open>\<^verbatim>\<open>str.lower()\<close>: the capital letters up to U+00FF are A to Z, U+00C0 to U+00D6 and
  U+00D8 to U+00DE; each has its small letter 32 places up, and every other character stays.\<close>

definition has_lower :: "char \<Rightarrow> bool" where
  "has_lower c = (is_upper c \<or> (192 \<le> ord c \<and> ord c \<le> 214) \<or> (216 \<le> ord c \<and> ord c \<le> 222))"

definition lower_chr :: "char \<Rightarrow> char" where
  "lower_chr c = (if has_lower c then char_of (ord c + 32) else c)"

definition lower :: "string \<Rightarrow> string" where
  "lower s = map lower_chr s"

text \<open>\<^verbatim>\<open>str.isspace()\<close> on one character: tab to carriage return, the four separators
  U+001C to U+001F, the blank, the next-line control U+0085 and the no-break space U+00A0.\<close>

definition is_space :: "char \<Rightarrow> bool" where
  "is_space c = ((9 \<le> ord c \<and> ord c \<le> 13) \<or> (28 \<le> ord c \<and> ord c \<le> 32) \<or>
                 ord c = 133 \<or> ord c = 160)"

text \<open>\<^verbatim>\<open>str.strip()\<close>, \<^verbatim>\<open>str.rstrip('/')\<close>\<close>

definition strip :: "string \<Rightarrow> string" where
  "strip s = rev (dropWhile is_space (rev (dropWhile is_space s)))"

definition rstrip_chr :: "char \<Rightarrow> string \<Rightarrow> string" where
  "rstrip_chr c s = rev (dropWhile (\<lambda>x. x = c) (rev s))"

text \<open>\<^verbatim>\<open>s.startswith(p)\<close>, \<^verbatim>\<open>s.endswith(p)\<close>, \<^verbatim>\<open>p in s\<close>\<close>

definition startswith :: "string \<Rightarrow> string \<Rightarrow> bool" where
  "startswith s p = prefix p s"

definition endswith :: "string \<Rightarrow> string \<Rightarrow> bool" where
  "endswith s p = suffix p s"

fun contains :: "string \<Rightarrow> string \<Rightarrow> bool" where
  "contains [] p = (p = [])"
| "contains (c # s) p = (prefix p (c # s) \<or> contains s p)"

text \<open>\<^verbatim>\<open>s.split(c)\<close> for a one-character separator: never the empty list.\<close>

fun split_chr :: "char \<Rightarrow> string \<Rightarrow> string list" where
  "split_chr c [] = [[]]"
| "split_chr c (x # xs) =
     (if x = c then [] # split_chr c xs
      else (case split_chr c xs of
              [] \<Rightarrow> [[x]]
            | y # ys \<Rightarrow> (x # y) # ys))"

text \<open>\<^verbatim>\<open>s.replace(a, b)\<close> for one-character \<open>a\<close> and \<open>b\<close>\<close>

definition replace_chr :: "char \<Rightarrow> char \<Rightarrow> string \<Rightarrow> string" where
  "replace_chr a b s = map (\<lambda>c. if c = a then b else c) s"

text \<open>
  \<^verbatim>\<open>str.title()\<close>. A character that follows a cased character is lowered; any other
  character is put in title case. The cased characters up to U+00FF are the ASCII letters,
  U+00AA, U+00B5, U+00BA, U+00C0 to U+00D6, U+00D8 to U+00F6 and U+00F8 to U+00FF. The title
  case of a small letter is 32 places down, but for U+00B5 it is U+039C, for U+00DF it is the
  two letters \<^verbatim>\<open>Ss\<close> and for U+00FF it is U+0178; every other character is its own title
  case. The result is a list of code points.
\<close>

definition is_cased :: "char \<Rightarrow> bool" where
  "is_cased c =
     (is_alpha c \<or> ord c = 170 \<or> ord c = 181 \<or> ord c = 186 \<or>
      (192 \<le> ord c \<and> ord c \<le> 214) \<or> (216 \<le> ord c \<and> ord c \<le> 246) \<or> 248 \<le> ord c)"

definition title_points :: "char \<Rightarrow> nat list" where
  "title_points c =
     (if is_lower c \<or> (224 \<le> ord c \<and> ord c \<le> 246) \<or> (248 \<le> ord c \<and> ord c \<le> 254)
      then [ord c - 32]
      else if ord c = 181 then [924]
      else if ord c = 223 then [83, 115]
      else if ord c = 255 then [376]
      else [ord c])"

fun title_from :: "bool \<Rightarrow> string \<Rightarrow> nat list" where
  "title_from prev [] = []"
| "title_from prev (c # s) =
     (if prev then [ord (lower_chr c)] else title_points c) @ title_from (is_cased c) s"

definition title_case :: "string \<Rightarrow> nat list" where
  "title_case s = title_from False s"

section \<open>The URL library: \<^verbatim>\<open>urllib.parse\<close> of CPython 3.11\<close>

datatype error = ValueError | RequestException | OSError

record parse_result =
  scheme :: string
  netloc :: string
  path :: string
  params :: string
  query :: string
  fragment :: string

definition uses_netloc :: "string list" where
  "uses_netloc = ['''', ''ftp'', ''http'', ''gopher'', ''nntp'', ''telnet'',
     ''imap'', ''wais'', ''file'', ''mms'', ''https'', ''shttp'',
     ''snews'', ''prospero'', ''rtsp'', ''rtsps'', ''rtspu'', ''rsync'',
     ''svn'', ''svn+ssh'', ''sftp'', ''nfs'', ''git'', ''git+ssh'',
     ''ws'', ''wss'']"

definition uses_params :: "string list" where
  "uses_params = ['''', ''ftp'', ''hdl'', ''prospero'', ''http'', ''imap'',
     ''https'', ''shttp'', ''rtsp'', ''rtsps'', ''rtspu'', ''sip'',
     ''sips'', ''mms'', ''sftp'', ''tel'']"

definition scheme_char :: "char \<Rightarrow> bool" where
  "scheme_char c = (is_alpha c \<or> is_digit c \<or> c \<in> set ''+-.'')"

text \<open>The leading C0 control characters and blanks that \<^verbatim>\<open>urlsplit\<close> strips, and the
  tab, carriage return and line feed that it deletes everywhere.\<close>

definition lstrip_c0 :: "string \<Rightarrow> string" where
  "lstrip_c0 s = dropWhile (\<lambda>c. ord c \<le> 32) s"

definition unsafe_chr :: "char \<Rightarrow> bool" where
  "unsafe_chr c = (c = CHR 0x09 \<or> c = CHR 0x0D \<or> c = CHR 0x0A)"

definition remove_unsafe :: "string \<Rightarrow> string" where
  "remove_unsafe s = filter (\<lambda>c. \<not> unsafe_chr c) s"

text \<open>\<^verbatim>\<open>a, b = s.split(c, 1)\<close> when \<open>c\<close> occurs in \<open>s\<close>\<close>

definition before_chr :: "char \<Rightarrow> string \<Rightarrow> string" where
  "before_chr c s = takeWhile (\<lambda>x. x \<noteq> c) s"

definition after_chr :: "char \<Rightarrow> string \<Rightarrow> string" where
  "after_chr c s = drop 1 (dropWhile (\<lambda>x. x \<noteq> c) s)"

text \<open>\<^verbatim>\<open>_splitnetloc(url, 2)\<close>: the authority runs from index 2 to the first of \<open>/?#\<close>.\<close>

definition netloc_delim :: "char \<Rightarrow> bool" where
  "netloc_delim c = (c = CHR ''/'' \<or> c = CHR ''?'' \<or> c = CHR ''#'')"

definition splitnetloc :: "string \<Rightarrow> string \<times> string" where
  "splitnetloc url =
     (takeWhile (\<lambda>c. \<not> netloc_delim c) (drop 2 url),
      dropWhile (\<lambda>c. \<not> netloc_delim c) (drop 2 url))"

text \<open>
  \<^verbatim>\<open>urlsplit(url)\<close> with the default scheme \<^verbatim>\<open>''\<close>. The check of a bracketed host
  (\<^verbatim>\<open>_check_bracketed_host\<close>, built on the \<^verbatim>\<open>ipaddress\<close> module) is the parameter
  \<open>host_ok\<close>. The result is (scheme, netloc, path, query, fragment).
\<close>

definition urlsplit ::
  "(string \<Rightarrow> bool) \<Rightarrow> string \<Rightarrow> error + (string \<times> string \<times> string \<times> string \<times> string)" where
  "urlsplit host_ok url0 =
     (let url = remove_unsafe (lstrip_c0 url0);
          pre = before_chr CHR '':'' url;
          (sch, url) =
            (if CHR '':'' \<in> set url \<and> pre \<noteq> [] \<and> is_alpha (hd url) \<and> list_all scheme_char pre
             then (lower pre, after_chr CHR '':'' url)
             else ('''', url));
          has_netloc = (take 2 url = ''//'');
          (nl, url) = (if has_netloc then splitnetloc url else ('''', url))
      in if has_netloc \<and> ((CHR ''['' \<in> set nl \<and> CHR '']'' \<notin> set nl) \<or>
                            (CHR '']'' \<in> set nl \<and> CHR ''['' \<notin> set nl))
         then Inl ValueError
         else if has_netloc \<and> CHR ''['' \<in> set nl \<and> CHR '']'' \<in> set nl \<and>
                 \<not> host_ok (before_chr CHR '']'' (after_chr CHR ''['' nl))
         then Inl ValueError
         else
           (let (url, frag) =
                  (if CHR ''#'' \<in> set url
                   then (before_chr CHR ''#'' url, after_chr CHR ''#'' url)
                   else (url, ''''));
                (url, qry) =
                  (if CHR ''?'' \<in> set url
                   then (before_chr CHR ''?'' url, after_chr CHR ''?'' url)
                   else (url, ''''))
            in Inr (sch, nl, url, qry, frag)))"

text \<open>\<^verbatim>\<open>_splitparams\<close>: the split is at the first \<open>;\<close> of the last path segment.\<close>

definition last_segment :: "string \<Rightarrow> string" where
  "last_segment url = rev (takeWhile (\<lambda>c. c \<noteq> CHR ''/'') (rev url))"

definition splitparams :: "string \<Rightarrow> string \<times> string" where
  "splitparams url =
     (let seg = last_segment url;
          dir = take (length url - length seg) url
      in if CHR '';'' \<in> set seg
         then (dir @ before_chr CHR '';'' seg, after_chr CHR '';'' seg)
         else (url, ''''))"

definition urlparse :: "(string \<Rightarrow> bool) \<Rightarrow> string \<Rightarrow> error + parse_result" where
  "urlparse host_ok url =
     (case urlsplit host_ok url of
        Inl e \<Rightarrow> Inl e
      | Inr (sch, nl, p, qry, frag) \<Rightarrow>
          (let (p, prm) =
                 (if sch \<in> set uses_params \<and> CHR '';'' \<in> set p then splitparams p else (p, ''''))
           in Inr \<lparr>scheme = sch, netloc = nl, path = p, params = prm,
                   query = qry, fragment = frag\<rparr>))"

definition urlunsplit :: "string \<times> string \<times> string \<times> string \<times> string \<Rightarrow> string" where
  "urlunsplit c =
     (case c of (sch, nl, url, qry, frag) \<Rightarrow>
        (let url = (if nl \<noteq> [] \<or> (sch \<noteq> [] \<and> sch \<in> set uses_netloc) \<or> take 2 url = ''//''
                    then ''//'' @ nl @ (if url \<noteq> [] \<and> take 1 url \<noteq> ''/'' then ''/'' @ url else url)
                    else url);
             url = (if sch \<noteq> [] then sch @ '':'' @ url else url);
             url = (if qry \<noteq> [] then url @ ''?'' @ qry else url);
             url = (if frag \<noteq> [] then url @ ''#'' @ frag else url)
         in url))"

definition urlunparse :: "parse_result \<Rightarrow> string" where
  "urlunparse r =
     urlunsplit (scheme r, netloc r,
                 (if params r \<noteq> [] then path r @ '';'' @ params r else path r),
                 query r, fragment r)"

section \<open>The scraper: pure methods\<close>

text \<open>\<^verbatim>\<open>WebScraper.normalize_url\<close>; a \<^verbatim>\<open>ValueError\<close> of \<^verbatim>\<open>urlparse\<close> propagates.\<close>

definition normalize_url :: "(string \<Rightarrow> bool) \<Rightarrow> string \<Rightarrow> error + string" where
  "normalize_url host_ok url0 =
     (let url = (if \<not> (startswith url0 ''http://'' \<or> startswith url0 ''https://'')
                 then ''https://'' @ url0 else url0)
      in case urlparse host_ok url of
           Inl e \<Rightarrow> Inl e
         | Inr parsed \<Rightarrow>
             Inr (urlunparse
                   \<lparr>scheme = scheme parsed,
                    netloc = lower (netloc parsed),
                    path = (if rstrip_chr CHR ''/'' (path parsed) \<noteq> []
                            then rstrip_chr CHR ''/'' (path parsed) else ''/''),
                    params = params parsed,
                    query = query parsed,
                    fragment = fragment parsed\<rparr>))"

text \<open>\<^verbatim>\<open>WebScraper.is_valid_url\<close>; the bare \<^verbatim>\<open>except\<close> turns every exception into
  \<^verbatim>\<open>False\<close>.\<close>

definition is_valid_url :: "(string \<Rightarrow> bool) \<Rightarrow> string \<Rightarrow> string \<Rightarrow> bool" where
  "is_valid_url host_ok url base_domain =
     (case urlparse host_ok url of
        Inl e \<Rightarrow> False
      | Inr parsed \<Rightarrow>
          (if netloc parsed = [] then False
           else (netloc parsed = base_domain \<or>
                 endswith (netloc parsed) (''.'' @ base_domain))))"

text \<open>\<^verbatim>\<open>WebScraper.detect_content_type\<close>\<close>

definition any_in :: "string list \<Rightarrow> string \<Rightarrow> bool" where
  "any_in patterns s = list_ex (\<lambda>pattern. contains s pattern) patterns"

definition detect_content_type :: "string \<Rightarrow> string \<Rightarrow> string \<Rightarrow> string" where
  "detect_content_type url title content =
     (let url_lower = lower url;
          title_lower = (if title \<noteq> [] then lower title else '''')
      in if any_in [''/blog/'', ''/post/'', ''/article/''] url_lower then ''blog''
         else if any_in [''/podcast/'', ''/episode/''] url_lower then ''podcast_transcript''
         else if any_in [''/call/'', ''/meeting/''] url_lower then ''call_transcript''
         else if any_in [''linkedin.com'', ''/posts/''] url_lower then ''linkedin_post''
         else if any_in [''reddit.com'', ''/comments/''] url_lower then ''reddit_comment''
         else if any_in [''/book/'', ''/books/''] url_lower then ''book''
         else if any_in [''/guide/'', ''/guides/'', ''/tutorial/''] url_lower then ''blog''
         else ''blog'')"

section \<open>The collaborators and the scraper's state\<close>

text \<open>
  One HTTP request of the session: the URL, the session's headers and the timeout in seconds.
\<close>

record request =
  req_url :: string
  req_headers :: "string \<rightharpoonup> string"
  req_timeout :: nat

text \<open>
  What the scraper calls and does not define:
  \<^item> \<open>host_ok\<close>: \<^verbatim>\<open>_check_bracketed_host\<close> of \<^verbatim>\<open>urllib.parse\<close>;
  \<^item> \<open>http_get\<close>: \<^verbatim>\<open>session.get\<close> followed by \<^verbatim>\<open>raise_for_status\<close>, given the requests
    made before: the body of a 2xx response, or \<open>None\<close> for a network error, a timeout or
    any other status;
  \<^item> \<open>anchors\<close>: the \<^verbatim>\<open>href\<close> values of \<^verbatim>\<open>soup.find_all('a', href=True)\<close>, in document
    order;
  \<^item> \<open>urljoin\<close>: \<^verbatim>\<open>urllib.parse.urljoin\<close>;
  \<^item> \<open>set_order\<close>: the order in which Python iterates over a set of strings;
  \<^item> \<open>select_one\<close>: \<^verbatim>\<open>soup.select_one(selector)\<close>, as the \<^verbatim>\<open>get_text()\<close> of the element
    found;
  \<^item> \<open>trafilatura_extract\<close>: \<^verbatim>\<open>trafilatura.extract\<close> with the options of the source;
  \<^item> \<open>default_headers\<close>: the headers of a new \<^verbatim>\<open>requests.Session\<close>;
  \<^item> \<open>parse_int\<close>: \<^verbatim>\<open>int(s)\<close>, \<open>None\<close> when it raises;
  \<^item> \<open>writable\<close>: whether \<^verbatim>\<open>open(name, 'w')\<close> and the write of the JSON document succeed;
  \<^item> \<open>can_print\<close>: whether \<^verbatim>\<open>print\<close> of a message of \<^verbatim>\<open>main\<close> succeeds on the standard
    output; three of the five messages carry a character that not every output encoding has.
  Logging, \<^verbatim>\<open>time.sleep\<close> and the progress bar change nothing that is modelled.
\<close>

datatype message =
    Starting string
  | Output_to string
  | May_take_minutes
  | Scraped nat
  | Saved_to string

record env =
  host_ok :: "string \<Rightarrow> bool"
  http_get :: "request list \<Rightarrow> request \<Rightarrow> string option"
  anchors :: "string \<Rightarrow> string list"
  urljoin :: "string \<Rightarrow> string \<Rightarrow> error + string"
  set_order :: "string fset \<Rightarrow> string list"
  select_one :: "string \<Rightarrow> string \<Rightarrow> string option"
  trafilatura_extract :: "string \<Rightarrow> string option"
  default_headers :: "string \<rightharpoonup> string"
  parse_int :: "string \<Rightarrow> int option"
  writable :: "string \<Rightarrow> bool"
  can_print :: "message \<Rightarrow> bool"

record scraper =
  max_pages :: int
  delay :: real
  session_headers :: "string \<rightharpoonup> string"
  visited_urls :: "string fset"

text \<open>\<^verbatim>\<open>WebScraper.__init__\<close>\<close>

definition user_agent :: string where
  "user_agent = ''Mozilla/5.0 (Macintosh; Intel Mac OS X 10_15_7) AppleWebKit/537.36 (KHTML, like Gecko) Chrome/91.0.4472.124 Safari/537.36''"

definition WebScraper :: "env \<Rightarrow> int \<Rightarrow> real \<Rightarrow> scraper" where
  "WebScraper e mp d =
     \<lparr>max_pages = mp, delay = d,
      session_headers = (default_headers e)(''User-Agent'' \<mapsto> user_agent),
      visited_urls = {||}\<rparr>"

text \<open>\<^verbatim>\<open>self.session.get(url, timeout=t)\<close> and \<^verbatim>\<open>response.raise_for_status()\<close>: the
  response, and the requests made so far.\<close>

definition session_get ::
  "env \<Rightarrow> scraper \<Rightarrow> request list \<Rightarrow> string \<Rightarrow> nat \<Rightarrow> string option \<times> request list" where
  "session_get e s tr url t =
     (let r = \<lparr>req_url = url, req_headers = session_headers s, req_timeout = t\<rparr>
      in (http_get e tr r, tr @ [r]))"

section \<open>The crawler\<close>

text \<open>The loop of \<^verbatim>\<open>extract_links\<close> over the anchors; an exception of \<^verbatim>\<open>urljoin\<close> or
  of \<^verbatim>\<open>normalize_url\<close> leaves the method.\<close>

fun collect_links :: "env \<Rightarrow> string \<Rightarrow> string \<Rightarrow> string list \<Rightarrow> string list \<Rightarrow> error + string list" where
  "collect_links e base_url base_domain [] links = Inr links"
| "collect_links e base_url base_domain (href # hrefs) links =
     (case urljoin e base_url href of
        Inl x \<Rightarrow> Inl x
      | Inr joined \<Rightarrow>
          (case normalize_url (host_ok e) joined of
             Inl x \<Rightarrow> Inl x
           | Inr full_url \<Rightarrow>
               collect_links e base_url base_domain hrefs
                 (if is_valid_url (host_ok e) full_url base_domain
                  then links @ [full_url] else links)))"

definition extract_links :: "env \<Rightarrow> string \<Rightarrow> string \<Rightarrow> string \<Rightarrow> error + string list" where
  "extract_links e html base_url base_domain =
     (case collect_links e base_url base_domain (anchors e html) [] of
        Inl x \<Rightarrow> Inl x
      | Inr links \<Rightarrow> Inr (set_order e (fset_of_list links)))"

text \<open>The inner loop of \<^verbatim>\<open>crawl_site\<close> over the links of one page.\<close>

fun add_links :: "int \<Rightarrow> string list \<Rightarrow> string fset \<Rightarrow> string list \<Rightarrow> string fset \<times> string list" where
  "add_links mp [] found_urls urls_to_visit = (found_urls, urls_to_visit)"
| "add_links mp (link # links) found_urls urls_to_visit =
     (if link |\<notin>| found_urls \<and> int (fcard found_urls) < mp
      then add_links mp links (finsert link found_urls) (urls_to_visit @ [link])
      else add_links mp links found_urls urls_to_visit)"

lemma add_links_mono:
  "add_links mp links f q = (f', q') \<Longrightarrow>
     fcard f \<le> fcard f' \<and> length q \<le> length q' \<and> (fcard f' = fcard f \<longrightarrow> q' = q)"
proof (induction links arbitrary: f q)
  case Nil
  then show ?case by simp
next
  case (Cons l ls)
  show ?case
  proof (cases "l |\<notin>| f \<and> int (fcard f) < mp")
    case True
    with Cons.prems have "add_links mp ls (finsert l f) (q @ [l]) = (f', q')" by simp
    from Cons.IH [OF this] True show ?thesis
      by (auto simp: fcard_finsert_disjoint)
  next
    case False
    with Cons.prems have "add_links mp ls f q = (f', q')" by auto
    from Cons.IH [OF this] show ?thesis .
  qed
qed

lemma add_links_bound:
  "add_links mp links f q = (f', q') \<Longrightarrow> int (fcard f') \<le> max mp (int (fcard f))"
proof (induction links arbitrary: f q)
  case Nil
  then show ?case by simp
next
  case (Cons l ls)
  show ?case
  proof (cases "l |\<notin>| f \<and> int (fcard f) < mp")
    case True
    with Cons.prems have "add_links mp ls (finsert l f) (q @ [l]) = (f', q')" by simp
    from Cons.IH [OF this] True show ?thesis
      by (auto simp: fcard_finsert_disjoint)
  next
    case False
    with Cons.prems have "add_links mp ls f q = (f', q')" by auto
    from Cons.IH [OF this] show ?thesis .
  qed
qed

text \<open>One pass through the body of the \<^verbatim>\<open>while\<close> loop of \<^verbatim>\<open>crawl_site\<close>, entered with
  a non-empty queue: the scraper, the requests made so far, the queue and the URLs found. An
  exception inside the \<^verbatim>\<open>try\<close> block is caught: a failed request leaves the scraper as
  it is, a failed link extraction comes after the URL has been added to
  \<^verbatim>\<open>visited_urls\<close>.\<close>

definition crawl_body ::
  "env \<Rightarrow> string \<Rightarrow> scraper \<Rightarrow> request list \<Rightarrow> string list \<Rightarrow> string fset
     \<Rightarrow> scraper \<times> request list \<times> string list \<times> string fset" where
  "crawl_body e base_domain s tr urls_to_visit found_urls =
     (let current_url = hd urls_to_visit;
          rest = tl urls_to_visit
      in if current_url |\<in>| visited_urls s
         then (s, tr, rest, found_urls)
         else
           (case session_get e s tr current_url 10 of
              (None, tr') \<Rightarrow> (s, tr', rest, found_urls)
            | (Some html, tr') \<Rightarrow>
                (let s' = s\<lparr>visited_urls := finsert current_url (visited_urls s)\<rparr>
                 in case extract_links e html current_url base_domain of
                      Inl x \<Rightarrow> (s', tr', rest, found_urls)
                    | Inr new_links \<Rightarrow>
                        (case add_links (max_pages s') new_links found_urls rest of
                           (found_urls', urls_to_visit') \<Rightarrow>
                             (s', tr', urls_to_visit', found_urls')))))"

lemma crawl_body_decreases:
  assumes "q \<noteq> []" and "int (fcard f) < max_pages s"
    and "crawl_body e bd s tr q f = (s', tr', q', f')"
  shows "((e, bd, s', tr', q', f'), (e, bd, s, tr, q, f))
           \<in> measures [\<lambda>(e, bd, s, tr, q, f). nat (max_pages s - int (fcard f)),
                        \<lambda>(e, bd, s, tr, q, f). length q]"
proof (cases "hd q |\<in>| visited_urls s")
  case True
  with assms show ?thesis
    by (cases q) (auto simp: crawl_body_def)
next
  case False
  obtain resp tr1 where get: "session_get e s tr (hd q) 10 = (resp, tr1)"
    by (cases "session_get e s tr (hd q) 10")
  show ?thesis
  proof (cases resp)
    case None
    with assms False get show ?thesis
      by (cases q) (auto simp: crawl_body_def)
  next
    case (Some html)
    let ?s1 = "s\<lparr>visited_urls := finsert (hd q) (visited_urls s)\<rparr>"
    show ?thesis
    proof (cases "extract_links e html (hd q) bd")
      case (Inl x)
      with assms False get Some show ?thesis
        by (cases q) (auto simp: crawl_body_def)
    next
      case (Inr links)
      obtain f1 q1 where al: "add_links (max_pages s) links f (tl q) = (f1, q1)"
        by (cases "add_links (max_pages s) links f (tl q)")
      with assms False get Some Inr have res: "s' = ?s1" "q' = q1" "f' = f1"
        by (auto simp: crawl_body_def)
      from add_links_mono [OF al] add_links_bound [OF al] assms(1,2) res show ?thesis
        by (cases q) (auto simp: nat_less_iff)
    qed
  qed
qed

text \<open>The \<^verbatim>\<open>while\<close> loop of \<^verbatim>\<open>crawl_site\<close>: it ends for every input, since each pass
  either finds a new URL, below the quota, or shortens the queue.\<close>

function crawl_loop ::
  "env \<Rightarrow> string \<Rightarrow> scraper \<Rightarrow> request list \<Rightarrow> string list \<Rightarrow> string fset
     \<Rightarrow> string fset \<times> scraper \<times> request list" where
  "crawl_loop e base_domain s tr urls_to_visit found_urls =
     (if urls_to_visit \<noteq> [] \<and> int (fcard found_urls) < max_pages s
      then
        (case crawl_body e base_domain s tr urls_to_visit found_urls of
           (s', tr', urls_to_visit', found_urls') \<Rightarrow>
             crawl_loop e base_domain s' tr' urls_to_visit' found_urls')
      else (found_urls, s, tr))"
  by pat_completeness auto
termination
proof (relation "measures [\<lambda>(e, bd, s, tr, q, f). nat (max_pages s - int (fcard f)),
                           \<lambda>(e, bd, s, tr, q, f). length q]", goal_cases)
  case 1
  show ?case by simp
next
  case (2 e bd s tr q f s' r1 tr' r2 q' f')
  then have "crawl_body e bd s tr q f = (s', tr', q', f')"
    by simp
  with 2 show ?case
    using crawl_body_decreases [of q f s e bd tr s' tr' q' f'] by simp
qed

declare crawl_loop.simps [simp del]

text \<open>\<^verbatim>\<open>WebScraper.crawl_site\<close>: the list of the URLs found, the scraper after the crawl
  and the requests made. An exception of the two calls before the loop propagates; nothing
  has been changed by then.\<close>

definition crawl_site ::
  "env \<Rightarrow> scraper \<Rightarrow> request list \<Rightarrow> string \<Rightarrow> error + (string list \<times> scraper \<times> request list)" where
  "crawl_site e s tr root_url0 =
     (case normalize_url (host_ok e) root_url0 of
        Inl x \<Rightarrow> Inl x
      | Inr root_url \<Rightarrow>
          (case urlparse (host_ok e) root_url of
             Inl x \<Rightarrow> Inl x
           | Inr parsed \<Rightarrow>
               (case crawl_loop e (netloc parsed) s tr [root_url] {|root_url|} of
                  (found_urls, s', tr') \<Rightarrow> Inr (set_order e found_urls, s', tr'))))"

section \<open>Content extraction\<close>

text \<open>A record. Its title is a list of code points, since title case can leave the range
  of \<^typ>\<open>char\<close>; \<open>points\<close> reads a string as code points.\<close>

definition points :: "string \<Rightarrow> nat list" where
  "points s = map ord s"

record item =
  title :: "nat list"
  content :: string
  content_type :: string
  source_url :: string

record scrape_result =
  site :: string
  items :: "item list"

definition title_selectors :: "string list" where
  "title_selectors = [''h1'', ''title'', ''.post-title'', ''.entry-title'', ''.article-title'']"

text \<open>The loop over the selectors: the stripped text of the first element found.\<close>

fun select_title :: "env \<Rightarrow> string \<Rightarrow> string list \<Rightarrow> string option" where
  "select_title e html [] = None"
| "select_title e html (selector # selectors) =
     (case select_one e html selector of
        Some txt \<Rightarrow> Some (strip txt)
      | None \<Rightarrow> select_title e html selectors)"

text \<open>The loop over the lines of the Markdown: the stripped rest of the first line that
  starts with \<^verbatim>\<open># \<close>.\<close>

fun heading_title :: "string list \<Rightarrow> string option" where
  "heading_title [] = None"
| "heading_title (line # lines) =
     (if startswith line ''# '' then Some (strip (drop 2 line))
      else heading_title lines)"

text \<open>\<^verbatim>\<open>not title\<close>: the title is \<^verbatim>\<open>None\<close> or the empty string.\<close>

definition no_title :: "string option \<Rightarrow> bool" where
  "no_title t = (t = None \<or> t = Some [])"

text \<open>\<^verbatim>\<open>path.split('/')[-1].replace('-', ' ').replace('_', ' ').title()\<close>\<close>

definition url_title :: "string \<Rightarrow> nat list" where
  "url_title p =
     title_case (replace_chr CHR ''_'' CHR '' '' (replace_chr CHR ''-'' CHR '' ''
       (last (split_chr CHR ''/'' p))))"

text \<open>\<^verbatim>\<open>WebScraper.extract_content\<close>: the record, or \<open>None\<close>, and the requests made so
  far. Every exception inside is caught and gives \<open>None\<close>. The classifier computes with the
  URL alone (its title argument feeds a local variable that is never read), so the title is
  handed to it as 8-bit characters.\<close>

definition extract_content ::
  "env \<Rightarrow> scraper \<Rightarrow> request list \<Rightarrow> string \<Rightarrow> item option \<times> request list" where
  "extract_content e s tr url =
     (case session_get e s tr url 15 of
        (None, tr') \<Rightarrow> (None, tr')
      | (Some html, tr') \<Rightarrow>
          (case trafilatura_extract e html of
             None \<Rightarrow> (None, tr')
           | Some extracted \<Rightarrow>
               (if extracted = [] then (None, tr')
                else
                  (let t1 = select_title e html title_selectors;
                       t2 = (if no_title t1
                             then (case heading_title (split_chr CHR 0x0A extracted) of
                                     Some t \<Rightarrow> Some t
                                   | None \<Rightarrow> t1)
                             else t1);
                       t3 = (if no_title t2
                             then (case urlparse (host_ok e) url of
                                     Inl x \<Rightarrow> Inl x
                                   | Inr parsed \<Rightarrow> Inr (url_title (path parsed)))
                             else Inr (case t2 of Some t \<Rightarrow> points t | None \<Rightarrow> []))
                   in case t3 of
                        Inl x \<Rightarrow> (None, tr')
                      | Inr t \<Rightarrow>
                          (Some \<lparr>title = t, content = extracted,
                                  content_type =
                                    detect_content_type url (map char_of t) extracted,
                                  source_url = url\<rparr>, tr')))))"

definition build_output :: "string \<Rightarrow> item list \<Rightarrow> scrape_result" where
  "build_output site_url its = \<lparr>site = site_url, items = its\<rparr>"

text \<open>The loop of \<^verbatim>\<open>scrape_site\<close> over the URLs of the crawl.\<close>

fun extract_all ::
  "env \<Rightarrow> scraper \<Rightarrow> request list \<Rightarrow> string list \<Rightarrow> item list \<Rightarrow> item list \<times> request list" where
  "extract_all e s tr [] its = (its, tr)"
| "extract_all e s tr (url_to_scrape # urls) its =
     (case extract_content e s tr url_to_scrape of
        (Some content_data, tr') \<Rightarrow> extract_all e s tr' urls (its @ [content_data])
      | (None, tr') \<Rightarrow> extract_all e s tr' urls its)"

text \<open>\<^verbatim>\<open>WebScraper.scrape_site\<close>: the output, the scraper afterwards and the requests
  made. An exception can only come from the normalisation of the URL, before any change.\<close>

definition scrape_site ::
  "env \<Rightarrow> scraper \<Rightarrow> request list \<Rightarrow> string \<Rightarrow> error + (scrape_result \<times> scraper \<times> request list)" where
  "scrape_site e s tr url =
     (case normalize_url (host_ok e) url of
        Inl x \<Rightarrow> Inl x
      | Inr normalized_url \<Rightarrow>
          (case crawl_site e s tr normalized_url of
             Inl x \<Rightarrow> Inl x
           | Inr (urls, s', tr') \<Rightarrow>
               (case extract_all e s' tr' urls [] of
                  (its, tr'') \<Rightarrow> Inr (build_output normalized_url its, s', tr''))))"

section \<open>The command line\<close>

text \<open>\<^verbatim>\<open>s.replace(old, new)\<close> for a non-empty \<open>old\<close>\<close>

function replace_str :: "string \<Rightarrow> string \<Rightarrow> string \<Rightarrow> string" where
  "replace_str old new [] = []"
| "replace_str old new (c # s) =
     (if old \<noteq> [] \<and> prefix old (c # s)
      then new @ replace_str old new (drop (length old) (c # s))
      else c # replace_str old new s)"
  by pat_completeness auto
termination
  by (relation "measure (\<lambda>(old, new, s). length s)") auto

text \<open>The name of the output file: the second argument, or, when it is missing or empty,
  the host of the URL as given, without \<^verbatim>\<open>www.\<close> and with \<open>_\<close> for each dot. An
  exception of \<^verbatim>\<open>urlparse\<close> is outside the \<^verbatim>\<open>try\<close> block.\<close>

definition output_file_for :: "env \<Rightarrow> string \<Rightarrow> string \<Rightarrow> error + string" where
  "output_file_for e url output_arg =
     (if output_arg = []
      then (case urlparse (host_ok e) url of
              Inl x \<Rightarrow> Inl x
            | Inr parsed \<Rightarrow>
                Inr (replace_str ''.'' ''_'' (replace_str ''www.'' [] (netloc parsed))
                     @ ''_scraped.json''))
      else Inr output_arg)"

text \<open>
  \<^verbatim>\<open>main\<close>, given \<^verbatim>\<open>sys.argv\<close>: the exit status of the process and the file written, if
  any. An exception outside the \<^verbatim>\<open>try\<close> block ends the process with status 1, as
  \<^verbatim>\<open>sys.exit(1)\<close> does; a return from \<^verbatim>\<open>main\<close> ends it with status 0. Inside the
  \<^verbatim>\<open>try\<close> block every \<^verbatim>\<open>print\<close> that fails is an exception like any other: before the
  scrape nothing has been written, after it the file has.
\<close>

definition main :: "env \<Rightarrow> string list \<Rightarrow> int \<times> (string \<times> scrape_result) option" where
  "main e argv =
     (if length argv < 2 then (1, None)
      else
        (let url = argv ! 1;
             output_arg = (if length argv > 2 then argv ! 2 else []);
             max_pages_arg = (if length argv > 3 then parse_int e (argv ! 3) else Some 50)
         in case max_pages_arg of
              None \<Rightarrow> (1, None)
            | Some mp \<Rightarrow>
                (case output_file_for e url output_arg of
                   Inl x \<Rightarrow> (1, None)
                 | Inr output_file \<Rightarrow>
                     (if \<not> can_print e (Starting url) then (1, None)
                      else if \<not> can_print e (Output_to output_file) then (1, None)
                      else if \<not> can_print e May_take_minutes then (1, None)
                      else
                        (case scrape_site e (WebScraper e mp 0.5) [] url of
                           Inl x \<Rightarrow> (1, None)
                         | Inr (result, s', tr') \<Rightarrow>
                             (if \<not> writable e output_file then (1, None)
                              else if \<not> can_print e (Scraped (length (items result)))
                              then (1, Some (output_file, result))
                              else if \<not> can_print e (Saved_to output_file)
                              then (1, Some (output_file, result))
                              else (0, Some (output_file, result))))))))"

section \<open>Definitions used to state the properties\<close>

text \<open>The classifier as the specification words it: a table of groups of substrings, tried
  in order, each with its label, and \<^verbatim>\<open>blog\<close> when no group matches.\<close>

definition content_type_table :: "(string list \<times> string) list" where
  "content_type_table =
     [([''/blog/'', ''/post/'', ''/article/''], ''blog''),
      ([''/podcast/'', ''/episode/''], ''podcast_transcript''),
      ([''/call/'', ''/meeting/''], ''call_transcript''),
      ([''linkedin.com'', ''/posts/''], ''linkedin_post''),
      ([''reddit.com'', ''/comments/''], ''reddit_comment''),
      ([''/book/'', ''/books/''], ''book''),
      ([''/guide/'', ''/guides/'', ''/tutorial/''], ''blog'')]"

fun first_match :: "(string list \<times> string) list \<Rightarrow> string \<Rightarrow> string" where
  "first_match [] u = ''blog''"
| "first_match ((patterns, label) # groups) u =
     (if list_ex (\<lambda>p. sublist p u) patterns then label else first_match groups u)"

definition classify :: "string \<Rightarrow> string" where
  "classify url = first_match content_type_table (lower url)"

text \<open>What every theorem about the URL list assumes of Python's set iteration: it lists each
  element of the set once.\<close>

definition enumerates :: "(string fset \<Rightarrow> string list) \<Rightarrow> bool" where
  "enumerates order_of = (\<forall>S. fset_of_list (order_of S) = S \<and> distinct (order_of S))"

text \<open>
  A small world to run the scraper in. A page is its URL and its text; the anchors of a page
  are the words of its text, each an absolute URL; sets are iterated in sorted order; no
  selector matches; the extracted content is the text of the page.
\<close>

definition demo_env :: "(string \<rightharpoonup> string) \<Rightarrow> env" where
  "demo_env pages =
     \<lparr>host_ok = (\<lambda>h. False),
      http_get = (\<lambda>tr r. pages (req_url r)),
      anchors = (\<lambda>html. filter (\<lambda>w. w \<noteq> []) (split_chr CHR '' '' html)),
      urljoin = (\<lambda>base href. Inr href),
      set_order = sorted_list_of_fset,
      select_one = (\<lambda>html selector. None),
      trafilatura_extract = (\<lambda>html. Some html),
      default_headers = Map.empty,
      parse_int = (\<lambda>s. None),
      writable = (\<lambda>name. True),
      can_print = (\<lambda>m. True)\<rparr>"

text \<open>The site of the end-to-end scenario: A links to B and C, B links to A and D.\<close>

definition demo_pages :: "string \<rightharpoonup> string" where
  "demo_pages =
     [''https://example.com/'' \<mapsto> ''https://example.com/b https://example.com/c'',
      ''https://example.com/b'' \<mapsto> ''https://example.com/ https://example.com/d'',
      ''https://example.com/c'' \<mapsto> ''no links'',
      ''https://example.com/d'' \<mapsto> ''no links'']"

text \<open>A crawl of a site that does not answer, with a quota of 0 pages.\<close>

definition quota_zero_crawl :: "error + (string list \<times> scraper \<times> request list)" where
  "quota_zero_crawl =
     crawl_site (demo_env Map.empty) (WebScraper (demo_env Map.empty) 0 0.5) [] ''example.com''"

text \<open>A crawl and a scrape of the scenario, with a quota of 10 pages.\<close>

definition demo_crawl :: "error + (string list \<times> scraper \<times> request list)" where
  "demo_crawl =
     crawl_site (demo_env demo_pages) (WebScraper (demo_env demo_pages) 10 0.5) [] ''example.com''"

definition demo_scrape :: "error + (scrape_result \<times> scraper \<times> request list)" where
  "demo_scrape =
     scrape_site (demo_env demo_pages) (WebScraper (demo_env demo_pages) 10 0.5) [] ''example.com''"

text \<open>A second scrape of the scenario with the scraper that the first one left.\<close>

definition demo_rescrape :: "error + (scrape_result \<times> scraper \<times> request list)" where
  "demo_rescrape =
     scrape_site (demo_env demo_pages) (fst (snd (projr demo_scrape))) [] ''example.com''"

text \<open>A site whose root sorts after the page it links to.\<close>

definition order_pages :: "string \<rightharpoonup> string" where
  "order_pages =
     [''https://example.com/z'' \<mapsto> ''https://example.com/a'',
      ''https://example.com/a'' \<mapsto> ''text'']"

definition order_scrape :: "error + (scrape_result \<times> scraper \<times> request list)" where
  "order_scrape =
     scrape_site (demo_env order_pages) (WebScraper (demo_env order_pages) 10 0.5) []
       ''example.com/z''"

text \<open>The title chain as the specification words it: the first of the strategies that
  yields a non-empty text.\<close>

fun first_nonempty :: "string option list \<Rightarrow> string option" where
  "first_nonempty [] = None"
| "first_nonempty (None # ts) = first_nonempty ts"
| "first_nonempty (Some t # ts) = (if t \<noteq> [] then Some t else first_nonempty ts)"

text \<open>The extraction of the root page of the scenario.\<close>

definition demo_item :: "item option" where
  "demo_item = fst (extract_content (demo_env demo_pages)
     (WebScraper (demo_env demo_pages) 10 0.5) [] ''https://example.com/'')"

text \<open>
  The host of a URL, as \<^verbatim>\<open>urllib.parse\<close> computes the \<^verbatim>\<open>hostname\<close> attribute from the
  \<^verbatim>\<open>netloc\<close>: what follows the last \<open>@\<close>, without the port, the part before a \<open>%\<close>
  lowered; empty where the attribute is \<^verbatim>\<open>None\<close>.
\<close>

definition hostname :: "string \<Rightarrow> string" where
  "hostname nl =
     (let hostinfo = rev (takeWhile (\<lambda>c. c \<noteq> CHR ''@'') (rev nl));
          host = (if CHR ''['' \<in> set hostinfo
                  then before_chr CHR '']'' (after_chr CHR ''['' hostinfo)
                  else before_chr CHR '':'' hostinfo)
      in lower (before_chr CHR ''%'' host) @ dropWhile (\<lambda>c. c \<noteq> CHR ''%'') host)"

text \<open>A \<^verbatim>\<open>netloc\<close> that is a host and nothing else: no user, no port, no bracket, no
  capital letter.\<close>

definition bare_host :: "string \<Rightarrow> bool" where
  "bare_host nl =
     (CHR ''@'' \<notin> set nl \<and> CHR '':'' \<notin> set nl \<and> CHR ''['' \<notin> set nl \<and> lower nl = nl)"

text \<open>What the extraction of each URL of a list yields, one after the other, each with the
  requests made up to then.\<close>

fun extraction_results ::
  "env \<Rightarrow> scraper \<Rightarrow> request list \<Rightarrow> string list \<Rightarrow> item option list" where
  "extraction_results e s tr [] = []"
| "extraction_results e s tr (u # us) =
     fst (extract_content e s tr u) # extraction_results e s (snd (extract_content e s tr u)) us"

text \<open>Three pages for the three tiers of the title: the first has a \<^verbatim>\<open>title\<close> element, the
  second a heading line in its Markdown, the third neither.\<close>

definition titled_pages :: "string \<rightharpoonup> string" where
  "titled_pages =
     [''https://example.com/one'' \<mapsto> ''page one'',
      ''https://example.com/two'' \<mapsto> ''intro'' @ [CHR 0x0A] @ ''#  Second Page '' @ [CHR 0x0A] @ ''body'',
      ''https://example.com/third-page_x'' \<mapsto> ''plain'']"

definition titled_env :: env where
  "titled_env =
     (demo_env titled_pages)
       \<lparr>select_one := (\<lambda>html selector.
          if html = ''page one'' \<and> selector = ''title'' then Some ''  Page One '' else None)\<rparr>"

definition titled_item :: "string \<Rightarrow> item option \<times> request list" where
  "titled_item url = extract_content titled_env (WebScraper titled_env 10 0.5) [] url"

(*DEFS*)

section \<open>Properties\<close>

subsection \<open>Strings\<close>

lemma contains_sublist: "contains s p = sublist p s"
  by (induction s) (auto simp: sublist_Cons_right)

lemma any_in_sublist: "any_in ps s = list_ex (\<lambda>p. sublist p s) ps"
  by (simp add: any_in_def contains_sublist)

subsection \<open>Set iteration\<close>

lemma enumerates_length: "enumerates order_of \<Longrightarrow> length (order_of S) = fcard S"
proof -
  assume a: "enumerates order_of"
  then have "fset_of_list (order_of S) = S" and d: "distinct (order_of S)"
    by (simp_all add: enumerates_def)
  then have "set (order_of S) = fset S"
    by (metis fset_of_list.rep_eq)
  with d show ?thesis
    by (metis distinct_card fcard.rep_eq)
qed

lemma enumerates_set: "enumerates order_of \<Longrightarrow> set (order_of S) = fset S"
  by (metis enumerates_def fset_of_list.rep_eq)

lemma enumerates_sorted: "enumerates sorted_list_of_fset"
  by (simp add: enumerates_def) (simp add: sorted_list_of_fset.rep_eq)

lemma demo_env_enumerates: "enumerates (set_order (demo_env pages))"
  by (simp add: demo_env_def enumerates_sorted)

subsection \<open>The crawl loop: induction and invariants\<close>

lemma crawl_loop_induct_fixed:
  assumes "\<And>s tr q f.
     (\<And>s' tr' q' f'. q \<noteq> [] \<Longrightarrow> int (fcard f) < max_pages s \<Longrightarrow>
         crawl_body e bd s tr q f = (s', tr', q', f') \<Longrightarrow> P s' tr' q' f') \<Longrightarrow> P s tr q f"
  shows "P s tr q f"
proof -
  have "e' = e \<Longrightarrow> bd' = bd \<Longrightarrow> P s tr q f" for e' bd'
  proof (induction e' bd' s tr q f rule: crawl_loop.induct)
    case (1 e' bd' s tr q f)
    show ?case
      by (rule assms) (use 1 in auto)
  qed
  then show ?thesis by simp
qed

text \<open>A property that holds when the loop is entered and that every pass of the body keeps
  holds when the loop is left, with a queue that is empty or a quota that is reached.\<close>

lemma crawl_loop_invariant:
  assumes init: "I s tr q f"
    and step: "\<And>s tr q f s' tr' q' f'. I s tr q f \<Longrightarrow> q \<noteq> [] \<Longrightarrow>
         int (fcard f) < max_pages s \<Longrightarrow>
         crawl_body e bd s tr q f = (s', tr', q', f') \<Longrightarrow> I s' tr' q' f'"
    and run: "crawl_loop e bd s tr q f = (f', s', tr')"
  shows "\<exists>q'. I s' tr' q' f' \<and> (q' = [] \<or> \<not> int (fcard f') < max_pages s')"
  using init run
proof (induction s tr q f rule: crawl_loop_induct_fixed [where e = e and bd = bd])
  case (1 s tr q f)
  show ?case
  proof (cases "q \<noteq> [] \<and> int (fcard f) < max_pages s")
    case True
    obtain s1 tr1 q1 f1 where b: "crawl_body e bd s tr q f = (s1, tr1, q1, f1)"
      by (metis prod_cases4)
    from step [OF "1.prems"(1) _ _ b] True have I1: "I s1 tr1 q1 f1"
      by simp
    from "1.prems"(2) True b have "crawl_loop e bd s1 tr1 q1 f1 = (f', s', tr')"
      by (simp add: crawl_loop.simps [of e bd s tr q f])
    with "1.IH" [OF _ _ b I1] True show ?thesis
      by simp
  next
    case False
    with "1.prems" show ?thesis
      by (auto simp: crawl_loop.simps [of e bd s tr q f])
  qed
qed

lemma crawl_body_frame:
  assumes "crawl_body e bd s tr q f = (s', tr', q', f')"
  shows "s' = s\<lparr>visited_urls := visited_urls s'\<rparr> \<and> visited_urls s |\<subseteq>| visited_urls s'"
  using assms
  by (auto simp: crawl_body_def Let_def session_get_def
      split: if_splits option.splits sum.splits prod.splits)

lemma crawl_body_bound:
  assumes "crawl_body e bd s tr q f = (s', tr', q', f')"
  shows "int (fcard f') \<le> max (max_pages s) (int (fcard f))"
  using assms
  by (auto simp: crawl_body_def Let_def session_get_def
      split: if_splits option.splits sum.splits prod.splits dest!: add_links_bound)

lemma crawl_loop_frame:
  assumes "crawl_loop e bd s tr q f = (f', s', tr')"
  shows "s' = s\<lparr>visited_urls := visited_urls s'\<rparr> \<and> visited_urls s |\<subseteq>| visited_urls s'"
proof -
  let ?I = "\<lambda>s1 (tr1 :: request list) (q1 :: string list) (f1 :: string fset).
              s1 = s\<lparr>visited_urls := visited_urls s1\<rparr> \<and> visited_urls s |\<subseteq>| visited_urls s1"
  have "\<exists>q'. ?I s' tr' q' f' \<and> (q' = [] \<or> \<not> int (fcard f') < max_pages s')"
  proof (rule crawl_loop_invariant [where I = ?I, OF _ _ assms])
    show "?I s tr q f" by simp
  next
    fix s1 tr1 q1 f1 s2 tr2 q2 f2
    assume i: "?I s1 tr1 q1 f1" and b: "crawl_body e bd s1 tr1 q1 f1 = (s2, tr2, q2, f2)"
    from crawl_body_frame [OF b] i show "?I s2 tr2 q2 f2"
      by (metis (no_types, lifting) fsubset_trans scraper.surjective scraper.update_convs(4))
  qed
  then show ?thesis by blast
qed

lemma crawl_loop_bound:
  assumes "crawl_loop e bd s tr q f = (f', s', tr')"
  shows "int (fcard f') \<le> max (max_pages s) (int (fcard f))"
proof -
  let ?I = "\<lambda>s1 (tr1 :: request list) (q1 :: string list) (f1 :: string fset).
              max_pages s1 = max_pages s \<and> int (fcard f1) \<le> max (max_pages s) (int (fcard f))"
  have "\<exists>q'. ?I s' tr' q' f' \<and> (q' = [] \<or> \<not> int (fcard f') < max_pages s')"
  proof (rule crawl_loop_invariant [where I = ?I, OF _ _ assms])
    show "?I s tr q f" by simp
  next
    fix s1 tr1 q1 f1 s2 tr2 q2 f2
    assume i: "?I s1 tr1 q1 f1" and b: "crawl_body e bd s1 tr1 q1 f1 = (s2, tr2, q2, f2)"
    from crawl_body_frame [OF b] have "max_pages s2 = max_pages s1"
      by (metis scraper.select_convs(1) scraper.surjective scraper.update_convs(4))
    with crawl_body_bound [OF b] i show "?I s2 tr2 q2 f2"
      by auto
  qed
  then show ?thesis by blast
qed

text \<open>What \<^verbatim>\<open>crawl_site\<close> returns, in terms of the loop.\<close>

lemma crawl_site_Inr:
  assumes "crawl_site e s tr u = Inr (urls, s', tr')"
  obtains root parsed found where
    "normalize_url (host_ok e) u = Inr root"
    "urlparse (host_ok e) root = Inr parsed"
    "crawl_loop e (netloc parsed) s tr [root] {|root|} = (found, s', tr')"
    "urls = set_order e found"
  using assms
  by (auto simp: crawl_site_def split: sum.splits prod.splits)

lemma scrape_site_Inr:
  assumes "scrape_site e s tr u = Inr (out, s', tr')"
  obtains normalized urls tr1 where
    "normalize_url (host_ok e) u = Inr normalized"
    "crawl_site e s tr normalized = Inr (urls, s', tr1)"
    "extract_all e s' tr1 urls [] = (items out, tr')"
    "site out = normalized"
  using assms
  by (auto simp: scrape_site_def build_output_def split: sum.splits prod.splits)

lemma demo_crawl_runs: "\<not> isl demo_crawl"
  by (simp add: demo_crawl_def) code_simp

lemma demo_scrape_runs: "\<not> isl demo_scrape"
  by (simp add: demo_scrape_def) code_simp

lemma not_isl_Inr: "\<not> isl r \<Longrightarrow> r = Inr (fst (projr r), fst (snd (projr r)), snd (snd (projr r)))"
  by (cases r) auto

subsection \<open>Runs of the loop that end at once\<close>

lemma crawl_loop_done:
  "crawl_loop e bd s tr [] f = (f, s, tr)"
  by (simp add: crawl_loop.simps [of e bd s tr "[]" f])

lemma crawl_loop_root_visited:
  assumes "rt |\<in>| visited_urls s"
  shows "crawl_loop e bd s tr [rt] {|rt|} = ({|rt|}, s, tr)"
proof (cases "int (fcard {|rt|}) < max_pages s")
  case True
  with assms have "crawl_body e bd s tr [rt] {|rt|} = (s, tr, [], {|rt|})"
    by (simp add: crawl_body_def)
  with True show ?thesis
    by (simp add: crawl_loop.simps [of e bd s tr "[rt]"] crawl_loop_done)
next
  case False
  then show ?thesis
    by (simp add: crawl_loop.simps [of e bd s tr "[rt]"])
qed

lemma crawl_loop_root_unreachable:
  assumes "\<forall>tr r. req_url r = rt \<longrightarrow> http_get e tr r = None"
  shows "\<exists>tr'. crawl_loop e bd s tr [rt] {|rt|} = ({|rt|}, s, tr')"
proof (cases "int (fcard {|rt|}) < max_pages s")
  case True
  from assms have "\<exists>tr'. crawl_body e bd s tr [rt] {|rt|} = (s, tr', [], {|rt|})"
    by (simp add: crawl_body_def session_get_def)
  with True show ?thesis
    by (auto simp: crawl_loop.simps [of e bd s tr "[rt]"] crawl_loop_done)
next
  case False
  then show ?thesis
    by (simp add: crawl_loop.simps [of e bd s tr "[rt]"])
qed

lemma extract_content_unreachable:
  assumes "\<forall>tr r. req_url r = u \<longrightarrow> http_get e tr r = None"
  shows "fst (extract_content e s tr u) = None"
  using assms by (simp add: extract_content_def session_get_def)

lemma extract_all_unreachable:
  assumes "\<forall>u\<in>set urls. \<forall>tr r. req_url r = u \<longrightarrow> http_get e tr r = None"
  shows "fst (extract_all e s tr urls its) = its"
  using assms
proof (induction urls arbitrary: tr)
  case Nil
  show ?case by simp
next
  case (Cons u urls)
  then have "fst (extract_content e s tr u) = None"
    by (intro extract_content_unreachable) simp
  then obtain tr1 where "extract_content e s tr u = (None, tr1)"
    by (cases "extract_content e s tr u") auto
  with Cons show ?case
    by simp
qed

lemma scrape_site_root_unreachable:
  assumes n1: "normalize_url (host_ok e) url = Inr n1"
    and n2: "normalize_url (host_ok e) n1 = Inr rt"
    and p: "urlparse (host_ok e) rt = Inr parsed"
    and en: "enumerates (set_order e)"
    and dead: "\<forall>tr r. req_url r = rt \<longrightarrow> http_get e tr r = None"
  shows "\<exists>tr'. scrape_site e s tr url = Inr (\<lparr>site = n1, items = []\<rparr>, s, tr')"
proof -
  from crawl_loop_root_unreachable [OF dead] obtain tr1 where
    loop: "crawl_loop e (netloc parsed) s tr [rt] {|rt|} = ({|rt|}, s, tr1)"
    by blast
  let ?urls = "set_order e {|rt|}"
  from n2 p loop have crawl: "crawl_site e s tr n1 = Inr (?urls, s, tr1)"
    by (simp add: crawl_site_def)
  from enumerates_set [OF en] have "set ?urls = {rt}"
    by simp
  with dead have "\<forall>u\<in>set ?urls. \<forall>tr r. req_url r = u \<longrightarrow> http_get e tr r = None"
    by simp
  from extract_all_unreachable [OF this] have "fst (extract_all e s tr1 ?urls []) = []" .
  then obtain tr2 where "extract_all e s tr1 ?urls [] = ([], tr2)"
    by (cases "extract_all e s tr1 ?urls []") auto
  with n1 crawl show ?thesis
    by (simp add: scrape_site_def build_output_def)
qed

subsection \<open>The extraction loop\<close>

lemma extract_content_source:
  "extract_content e s tr u = (Some it, tr') \<Longrightarrow> source_url it = u"
  by (auto simp: extract_content_def Let_def split: prod.splits option.splits sum.splits if_splits)

lemma extract_all_subseq:
  "extract_all e s tr urls its = (its', tr') \<Longrightarrow>
     \<exists>new. its' = its @ new \<and> subseq (map source_url new) urls"
proof (induction urls arbitrary: tr its)
  case Nil
  then show ?case by simp
next
  case (Cons u urls)
  obtain r tr1 where ec: "extract_content e s tr u = (r, tr1)"
    by (cases "extract_content e s tr u")
  show ?case
  proof (cases r)
    case None
    with Cons.prems ec have "extract_all e s tr1 urls its = (its', tr')"
      by simp
    from Cons.IH [OF this] show ?thesis
      by auto
  next
    case (Some it)
    with Cons.prems ec have "extract_all e s tr1 urls (its @ [it]) = (its', tr')"
      by simp
    from Cons.IH [OF this] obtain new where
      "its' = (its @ [it]) @ new" "subseq (map source_url new) urls"
      by blast
    with extract_content_source [of e s tr u it tr1] ec Some show ?thesis
      by (intro exI [of _ "it # new"]) simp
  qed
qed

subsection \<open>Titles\<close>

lemma title_from_empty: "title_from b s = [] \<longleftrightarrow> s = []"
  by (cases s) (auto simp: title_points_def)

lemma url_title_empty: "url_title p = [] \<longleftrightarrow> last (split_chr CHR ''/'' p) = []"
  by (simp add: url_title_def title_case_def title_from_empty replace_chr_def)

subsection \<open>Hosts\<close>

lemma lower_fixed_takeWhile: "lower s = s \<Longrightarrow> lower (takeWhile P s) = takeWhile P s"
  by (induction s) (auto simp: lower_def)

lemma hostname_bare:
  assumes "bare_host nl"
  shows "hostname nl = nl"
proof -
  from assms have a: "CHR ''@'' \<notin> set nl" and c: "CHR '':'' \<notin> set nl"
    and b: "CHR ''['' \<notin> set nl" and l: "lower nl = nl"
    by (simp_all add: bare_host_def)
  from a have "\<forall>x\<in>set (rev nl). x \<noteq> CHR ''@''"
    by auto
  then have "takeWhile (\<lambda>c. c \<noteq> CHR ''@'') (rev nl) = rev nl"
    by (simp only: takeWhile_eq_all_conv)
  then have info: "rev (takeWhile (\<lambda>c. c \<noteq> CHR ''@'') (rev nl)) = nl"
    by (simp only: rev_rev_ident)
  from c have host: "before_chr CHR '':'' nl = nl"
    by (auto simp: before_chr_def takeWhile_eq_all_conv)
  from l have "lower (before_chr CHR ''%'' nl) = before_chr CHR ''%'' nl"
    by (simp add: before_chr_def lower_fixed_takeWhile)
  then have "lower (before_chr CHR ''%'' nl) @ dropWhile (\<lambda>c. c \<noteq> CHR ''%'') nl = nl"
    by (simp add: before_chr_def)
  with info host b show ?thesis
    by (simp add: hostname_def Let_def)
qed

subsection \<open>The found set only grows\<close>

lemma add_links_subset: "add_links mp links f q = (f', q') \<Longrightarrow> f |\<subseteq>| f'"
proof (induction links arbitrary: f q)
  case Nil
  then show ?case by simp
next
  case (Cons l ls)
  show ?case
  proof (cases "l |\<notin>| f \<and> int (fcard f) < mp")
    case True
    with Cons.prems have "add_links mp ls (finsert l f) (q @ [l]) = (f', q')" by simp
    from Cons.IH [OF this] show ?thesis
      by auto
  next
    case False
    with Cons.prems have "add_links mp ls f q = (f', q')" by auto
    from Cons.IH [OF this] show ?thesis .
  qed
qed

lemma crawl_body_found_mono:
  assumes "crawl_body e bd s tr q f = (s', tr', q', f')"
  shows "f |\<subseteq>| f'"
  using assms
  by (auto simp: crawl_body_def Let_def session_get_def
      split: if_splits option.splits sum.splits prod.splits dest!: add_links_subset)

lemma crawl_loop_found_mono:
  assumes "crawl_loop e bd s tr q f = (f', s', tr')"
  shows "f |\<subseteq>| f'"
proof -
  let ?I = "\<lambda>(s1 :: scraper) (tr1 :: request list) (q1 :: string list) (f1 :: string fset).
              f |\<subseteq>| f1"
  have "\<exists>q'. ?I s' tr' q' f' \<and> (q' = [] \<or> \<not> int (fcard f') < max_pages s')"
  proof (rule crawl_loop_invariant [where I = ?I, OF _ _ assms])
    show "?I s tr q f" by simp
  next
    fix s1 tr1 q1 f1 s2 tr2 q2 f2
    assume i: "?I s1 tr1 q1 f1" and b: "crawl_body e bd s1 tr1 q1 f1 = (s2, tr2, q2, f2)"
    from crawl_body_found_mono [OF b] i show "?I s2 tr2 q2 f2"
      by auto
  qed
  then show ?thesis by blast
qed

lemma enumerates_single:
  assumes "enumerates order_of"
  shows "order_of {|x|} = [x]"
proof -
  from enumerates_set [OF assms] have "set (order_of {|x|}) = {x}"
    by simp
  moreover from enumerates_length [OF assms] have "length (order_of {|x|}) = 1"
    by (simp add: fcard_finsert_disjoint)
  ultimately show ?thesis
    by (cases "order_of {|x|}") auto
qed

subsection \<open>The extraction loop, record by record\<close>

lemma extract_all_results:
  "extract_all e s tr urls its =
     (its @ List.map_filter id (extraction_results e s tr urls),
      snd (extract_all e s tr urls its))"
proof (induction urls arbitrary: tr its)
  case Nil
  show ?case by (simp add: List.map_filter_simps)
next
  case (Cons u urls)
  obtain r tr1 where ec: "extract_content e s tr u = (r, tr1)"
    by (cases "extract_content e s tr u")
  show ?case
  proof (cases r)
    case None
    with ec Cons.IH [of tr1 its] show ?thesis
      by (simp add: List.map_filter_simps)
  next
    case (Some it)
    with ec Cons.IH [of tr1 "its @ [it]"] show ?thesis
      by (simp add: List.map_filter_simps)
  qed
qed

lemma length_extraction_results: "length (extraction_results e s tr urls) = length urls"
  by (induction urls arbitrary: tr) auto

lemma extraction_results_source:
  "map source_url (List.map_filter id (extraction_results e s tr urls)) =
     map fst (filter (\<lambda>(u, r). r \<noteq> None) (zip urls (extraction_results e s tr urls)))"
proof (induction urls arbitrary: tr)
  case Nil
  show ?case by (simp add: List.map_filter_simps)
next
  case (Cons u urls)
  obtain r tr1 where ec: "extract_content e s tr u = (r, tr1)"
    by (cases "extract_content e s tr u")
  show ?case
  proof (cases r)
    case None
    with ec Cons.IH [of tr1] show ?thesis
      by (simp add: List.map_filter_simps)
  next
    case (Some it)
    with ec extract_content_source [of e s tr u it tr1] Cons.IH [of tr1] show ?thesis
      by (simp add: List.map_filter_simps)
  qed
qed

(*LEMMAS*)

subsection \<open>The content-type classifier\<close>

text \<open>
  C5. For every URL, title and content, \<^verbatim>\<open>detect_content_type\<close> returns the label of the
  first group of the table, in the order of the specification, one of whose substrings occurs
  in the lowercased URL, and \<^verbatim>\<open>blog\<close> when no group matches; the title and the content
  have no influence on the result.
\<close>

theorem detect_content_type_first_match:
  "detect_content_type url t c = classify url \<and>
   detect_content_type url t c = detect_content_type url t' c'"
  by (simp add: detect_content_type_def classify_def content_type_table_def
      any_in_sublist Let_def)

lemma classify_podcast: "classify ''https://site.com/podcast/ep-1'' = ''podcast_transcript''"
  by code_simp

theorem detect_content_type_first_match_witness:
  "detect_content_type ''https://site.com/podcast/ep-1'' ''Episode 1'' ''text''
     = ''podcast_transcript''"
  using detect_content_type_first_match
    [of "''https://site.com/podcast/ep-1''" "''Episode 1''" "''text''"]
  by (simp only: classify_podcast)

lemma detect_content_type_examples:
  "detect_content_type ''https://site.com/blog/my-post'' t c = ''blog''"
  "detect_content_type ''https://linkedin.com/posts/123'' t c = ''linkedin_post''"
  "detect_content_type ''https://site.com/about'' t c = ''blog''"
  by code_simp+

subsection \<open>The domain filter\<close>

text \<open>
  C7, as the specification states it, fails: the code compares the \<^verbatim>\<open>netloc\<close> of the URL,
  which holds the user, the port and the letter case as written, not the host. A URL of the
  base domain with an explicit port is rejected though its host equals the base domain, and
  a URL of another host whose port part ends with the base domain is accepted.
\<close>

theorem is_valid_url_host_counterexample:
  "map_sum id netloc (urlparse (\<lambda>h. True) ''https://quill.co:443/x'') = Inr ''quill.co:443'' \<and>
   hostname ''quill.co:443'' = ''quill.co'' \<and>
   \<not> is_valid_url (\<lambda>h. True) ''https://quill.co:443/x'' ''quill.co'' \<and>
   map_sum id netloc (urlparse (\<lambda>h. True) ''https://evil.com:.quill.co/x'') = Inr ''evil.com:.quill.co'' \<and>
   hostname ''evil.com:.quill.co'' = ''evil.com'' \<and>
   is_valid_url (\<lambda>h. True) ''https://evil.com:.quill.co/x'' ''quill.co''"
  by code_simp

text \<open>
  C7, amended. For every URL and base domain, \<^verbatim>\<open>is_valid_url\<close> is true exactly when the URL
  parses, its \<^verbatim>\<open>netloc\<close> is not empty and the \<^verbatim>\<open>netloc\<close> equals the base domain or ends
  with a dot followed by the base domain. A URL that does not parse gives false: the function
  is total and raises nothing. Where the \<^verbatim>\<open>netloc\<close> is a bare host in small letters (no
  user, no port, no bracket), it is the host, and the function is true exactly when the host
  is not empty and equals the base domain or ends with a dot followed by it; so
  \<^verbatim>\<open>blog.quill.co\<close> is internal to \<^verbatim>\<open>quill.co\<close> and \<^verbatim>\<open>quill.co.evil.com\<close> is not.
\<close>

theorem is_valid_url_iff:
  "(is_valid_url h url base_domain \<longleftrightarrow>
     (\<exists>parsed. urlparse h url = Inr parsed \<and> netloc parsed \<noteq> [] \<and>
        (netloc parsed = base_domain \<or> suffix (''.'' @ base_domain) (netloc parsed)))) \<and>
   (urlparse h url = Inr p \<and> bare_host (netloc p) \<longrightarrow>
     (is_valid_url h url base_domain \<longleftrightarrow>
        hostname (netloc p) \<noteq> [] \<and>
        (hostname (netloc p) = base_domain \<or>
         suffix (''.'' @ base_domain) (hostname (netloc p))))) \<and>
   is_valid_url h ''https://blog.quill.co/x'' ''quill.co'' \<and>
   \<not> is_valid_url h ''https://quill.co.evil.com/x'' ''quill.co''"
proof (intro conjI impI)
  show "is_valid_url h url base_domain \<longleftrightarrow>
     (\<exists>parsed. urlparse h url = Inr parsed \<and> netloc parsed \<noteq> [] \<and>
        (netloc parsed = base_domain \<or> suffix (''.'' @ base_domain) (netloc parsed)))"
    by (auto simp: is_valid_url_def endswith_def split: sum.splits)
next
  assume "urlparse h url = Inr p \<and> bare_host (netloc p)"
  then show "is_valid_url h url base_domain \<longleftrightarrow>
        hostname (netloc p) \<noteq> [] \<and>
        (hostname (netloc p) = base_domain \<or>
         suffix (''.'' @ base_domain) (hostname (netloc p)))"
    by (auto simp: is_valid_url_def endswith_def hostname_bare)
next
  show "is_valid_url h ''https://blog.quill.co/x'' ''quill.co''"
    by code_simp
next
  show "\<not> is_valid_url h ''https://quill.co.evil.com/x'' ''quill.co''"
    by code_simp
qed

lemma urlparse_blog_quill:
  "urlparse (\<lambda>h. True) ''https://blog.quill.co/x'' =
     Inr \<lparr>scheme = ''https'', netloc = ''blog.quill.co'', path = ''/x'', params = [],
           query = [], fragment = []\<rparr>"
  by code_simp

theorem is_valid_url_iff_witness:
  "bare_host ''blog.quill.co'' \<and> hostname ''blog.quill.co'' = ''blog.quill.co'' \<and>
   is_valid_url (\<lambda>h. True) ''https://blog.quill.co/x'' ''quill.co''"
proof -
  have s: "suffix ''.quill.co'' ''blog.quill.co''"
    by (rule suffixI [of _ "''blog''"]) simp
  have b: "bare_host ''blog.quill.co''"
    by code_simp
  from is_valid_url_iff [of "\<lambda>h. True" "''https://blog.quill.co/x''" "''quill.co''"
      "\<lparr>scheme = ''https'', netloc = ''blog.quill.co'', path = ''/x'', params = [],
        query = [], fragment = []\<rparr>"] b s hostname_bare [OF b]
  show ?thesis
    by (simp add: urlparse_blog_quill)
qed

lemma is_valid_url_examples:
  "\<not> is_valid_url h ''/relative/path'' ''quill.co''"
  "\<not> is_valid_url (\<lambda>h. False) ''https://[::1]/x'' ''quill.co''"
  by code_simp+

subsection \<open>The quota of the crawl\<close>

text \<open>
  C1, as the specification states it, fails: the root URL is put into the set of found URLs
  before the loop and without a look at the quota, so with \<^verbatim>\<open>max_pages = 0\<close> the crawl
  returns one URL.
\<close>

theorem crawl_site_quota_counterexample:
  "\<not> isl quota_zero_crawl \<and>
   fst (projr quota_zero_crawl) = [''https://example.com/''] \<and>
   max_pages (WebScraper (demo_env Map.empty) 0 0.5) = 0 \<and>
   \<not> int (length (fst (projr quota_zero_crawl)))
       \<le> max_pages (WebScraper (demo_env Map.empty) 0 0.5)"
  by (simp add: quota_zero_crawl_def) code_simp

text \<open>
  C1, amended. For every quota and every crawl, the list of URLs that \<^verbatim>\<open>crawl_site\<close>
  returns has at most \<open>max 1 max_pages\<close> elements and holds the normalised root: so it has at
  most \<^verbatim>\<open>max_pages\<close> elements when the quota is at least 1, and with a quota of 1 or less
  it is the root alone, the loop is not entered, no request is made and the scraper is
  unchanged. The bound holds after each pass of the loop (\<open>crawl_body_bound\<close>,
  \<open>crawl_loop_bound\<close>), whatever the site answers.
\<close>

theorem crawl_site_quota:
  assumes "enumerates (set_order e)"
    and "crawl_site e s tr root_url = Inr (urls, s', tr')"
  shows "int (length urls) \<le> max 1 (max_pages s) \<and>
         (\<exists>r. normalize_url (host_ok e) root_url = Inr r \<and> r \<in> set urls \<and>
              (max_pages s \<le> 1 \<longrightarrow> urls = [r] \<and> s' = s \<and> tr' = tr))"
proof -
  from assms(2) obtain r found and parsed :: parse_result where
    n: "normalize_url (host_ok e) root_url = Inr r"
    and loop: "crawl_loop e (netloc parsed) s tr [r] {|r|} = (found, s', tr')"
    and urls: "urls = set_order e found"
    by (rule crawl_site_Inr)
  have one: "fcard {|r|} = 1"
    by (simp add: fcard_finsert_disjoint)
  with crawl_loop_bound [OF loop] have "int (fcard found) \<le> max (max_pages s) 1"
    by simp
  with urls enumerates_length [OF assms(1)] have bound: "int (length urls) \<le> max 1 (max_pages s)"
    by (simp add: max.commute)
  from crawl_loop_found_mono [OF loop] have "r |\<in>| found"
    by auto
  with urls enumerates_set [OF assms(1)] have mem: "r \<in> set urls"
    by simp
  have small: "urls = [r] \<and> s' = s \<and> tr' = tr" if "max_pages s \<le> 1"
  proof -
    from that one have "crawl_loop e (netloc parsed) s tr [r] {|r|} = ({|r|}, s, tr)"
      by (simp add: crawl_loop.simps [of e "netloc parsed" s tr "[r]"])
    with loop urls enumerates_single [OF assms(1), of r] show ?thesis
      by auto
  qed
  from n bound mem small show ?thesis
    by blast
qed

theorem crawl_site_quota_witness:
  "\<not> isl demo_crawl \<and> int (length (fst (projr demo_crawl))) \<le> 10 \<and>
   ''https://example.com/'' \<in> set (fst (projr demo_crawl)) \<and>
   \<not> isl quota_zero_crawl \<and> fst (projr quota_zero_crawl) = [''https://example.com/''] \<and>
   snd (snd (projr quota_zero_crawl)) = []"
proof -
  let ?e = "demo_env demo_pages"
  let ?z = "demo_env Map.empty"
  have run: "crawl_site ?e (WebScraper ?e 10 0.5) [] ''example.com'' =
      Inr (fst (projr demo_crawl), fst (snd (projr demo_crawl)), snd (snd (projr demo_crawl)))"
    using not_isl_Inr [OF demo_crawl_runs] by (simp add: demo_crawl_def)
  have zruns: "\<not> isl quota_zero_crawl"
    by (simp add: quota_zero_crawl_def) code_simp
  have zrun: "crawl_site ?z (WebScraper ?z 0 0.5) [] ''example.com'' =
      Inr (fst (projr quota_zero_crawl), fst (snd (projr quota_zero_crawl)),
           snd (snd (projr quota_zero_crawl)))"
    using not_isl_Inr [OF zruns] by (simp add: quota_zero_crawl_def)
  have n: "normalize_url (host_ok ?e) ''example.com'' = Inr ''https://example.com/''"
    "normalize_url (host_ok ?z) ''example.com'' = Inr ''https://example.com/''"
    by code_simp+
  from crawl_site_quota [OF demo_env_enumerates run] n(1) demo_crawl_runs
  have a: "int (length (fst (projr demo_crawl))) \<le> 10 \<and>
      ''https://example.com/'' \<in> set (fst (projr demo_crawl))"
    by (auto simp: WebScraper_def)
  from crawl_site_quota [OF demo_env_enumerates zrun] n(2)
  have "fst (projr quota_zero_crawl) = [''https://example.com/''] \<and>
      snd (snd (projr quota_zero_crawl)) = []"
    by (auto simp: WebScraper_def)
  with a demo_crawl_runs zruns show ?thesis
    by simp
qed

subsection \<open>The configuration of the scraper\<close>

text \<open>
  C10. \<^verbatim>\<open>crawl_site\<close> and \<^verbatim>\<open>scrape_site\<close> leave a scraper that differs from the one they
  were called on in \<^verbatim>\<open>visited_urls\<close> at most: \<^verbatim>\<open>max_pages\<close>, \<^verbatim>\<open>delay\<close> and the headers of
  the session are as they were set at construction. \<^verbatim>\<open>extract_content\<close> assigns no
  attribute of the scraper at all, which is why its model returns no scraper; it runs inside
  \<^verbatim>\<open>scrape_site\<close>.
\<close>

theorem scraper_configuration_kept:
  "(crawl_site e s tr url = Inr (urls, s', tr') \<longrightarrow>
      s' = s\<lparr>visited_urls := visited_urls s'\<rparr> \<and>
      max_pages s' = max_pages s \<and> delay s' = delay s \<and>
      session_headers s' = session_headers s) \<and>
   (scrape_site e s tr url = Inr (out, s'', tr'') \<longrightarrow>
      s'' = s\<lparr>visited_urls := visited_urls s''\<rparr> \<and>
      max_pages s'' = max_pages s \<and> delay s'' = delay s \<and>
      session_headers s'' = session_headers s)"
proof -
  have crawl: "s1 = s0\<lparr>visited_urls := visited_urls s1\<rparr>"
    if "crawl_site e s0 tr0 u = Inr (us, s1, tr1)" for s0 tr0 u us s1 tr1
  proof -
    from that obtain root found and parsed :: parse_result where
      "crawl_loop e (netloc parsed) s0 tr0 [root] {|root|} = (found, s1, tr1)"
      by (rule crawl_site_Inr)
    from crawl_loop_frame [OF this] show ?thesis
      by simp
  qed
  have scrape: "s1 = s0\<lparr>visited_urls := visited_urls s1\<rparr>"
    if "scrape_site e s0 tr0 u = Inr (out, s1, tr1)" for s0 tr0 u out s1 tr1
  proof -
    from that obtain normalized us tr2 where
      "crawl_site e s0 tr0 normalized = Inr (us, s1, tr2)"
      by (rule scrape_site_Inr)
    from crawl [OF this] show ?thesis .
  qed
  have fields: "max_pages s1 = max_pages s0 \<and> delay s1 = delay s0 \<and>
      session_headers s1 = session_headers s0"
    if "s1 = s0\<lparr>visited_urls := visited_urls s1\<rparr>" for s0 s1 :: scraper
    by (subst that, simp)+
  from crawl scrape fields show ?thesis
    by blast
qed

theorem scraper_configuration_kept_witness:
  "\<not> isl demo_scrape \<and>
   max_pages (fst (snd (projr demo_scrape))) = 10 \<and>
   delay (fst (snd (projr demo_scrape))) = 0.5 \<and>
   session_headers (fst (snd (projr demo_scrape))) ''User-Agent'' = Some user_agent"
proof -
  let ?e = "demo_env demo_pages"
  have run: "scrape_site ?e (WebScraper ?e 10 0.5) [] ''example.com'' =
      Inr (fst (projr demo_scrape), fst (snd (projr demo_scrape)), snd (snd (projr demo_scrape)))"
    using not_isl_Inr [OF demo_scrape_runs] by (simp add: demo_scrape_def)
  from scraper_configuration_kept
    [of ?e "WebScraper ?e 10 0.5" "[]" "''example.com''" _ _ _
        "fst (projr demo_scrape)" "fst (snd (projr demo_scrape))" "snd (snd (projr demo_scrape))"]
    run demo_scrape_runs
  show ?thesis
    by (simp add: WebScraper_def)
qed

subsection \<open>The lifetime of the visited set\<close>

text \<open>
  C3, as the specification states it, fails: \<^verbatim>\<open>visited_urls\<close> is an attribute of the scraper,
  set to the empty set in \<^verbatim>\<open>__init__\<close> only. A second \<^verbatim>\<open>scrape_site\<close> of the same URL on
  the same scraper finds the root already visited, follows no link and returns one record
  where the first call returned four.
\<close>

theorem second_scrape_counterexample: "\<not> isl demo_scrape \<and> \<not> isl demo_rescrape \<and>
   map source_url (items (fst (projr demo_scrape))) =
     [''https://example.com/'', ''https://example.com/b'', ''https://example.com/c'',
      ''https://example.com/d''] \<and>
   map source_url (items (fst (projr demo_rescrape))) = [''https://example.com/'']"
  by (simp add: demo_rescrape_def demo_scrape_def) code_simp

text \<open>
  C3, amended. The set of found URLs and the queue live for one \<^verbatim>\<open>crawl_site\<close> call; the
  visited set lives as long as the scraper: it is empty after construction, a scrape only adds
  to it, and nothing clears it. A crawl whose normalised root is already in the visited set
  makes no request, changes nothing and returns the root alone.
\<close>

theorem visited_urls_persist:
  "visited_urls (WebScraper e mp d) = {||} \<and>
   (scrape_site e s tr url = Inr (out, s', tr') \<longrightarrow> visited_urls s |\<subseteq>| visited_urls s') \<and>
   (normalize_url (host_ok e) url = Inr rt \<and> urlparse (host_ok e) rt = Inr parsed \<and>
      rt |\<in>| visited_urls s \<longrightarrow>
      crawl_site e s tr url = Inr (set_order e {|rt|}, s, tr))"
proof (intro conjI impI)
  show "visited_urls (WebScraper e mp d) = {||}"
    by (simp add: WebScraper_def)
next
  assume "scrape_site e s tr url = Inr (out, s', tr')"
  then obtain normalized urls tr1 where
    "crawl_site e s tr normalized = Inr (urls, s', tr1)"
    by (rule scrape_site_Inr)
  then obtain r found and p :: parse_result where
    "crawl_loop e (netloc p) s tr [r] {|r|} = (found, s', tr1)"
    by (rule crawl_site_Inr)
  from crawl_loop_frame [OF this] show "visited_urls s |\<subseteq>| visited_urls s'"
    by simp
next
  assume "normalize_url (host_ok e) url = Inr rt \<and> urlparse (host_ok e) rt = Inr parsed \<and>
      rt |\<in>| visited_urls s"
  then show "crawl_site e s tr url = Inr (set_order e {|rt|}, s, tr)"
    by (simp add: crawl_site_def crawl_loop_root_visited)
qed

theorem visited_urls_persist_witness:
  "\<not> isl demo_scrape \<and>
   visited_urls (WebScraper (demo_env demo_pages) 10 0.5)
     |\<subseteq>| visited_urls (fst (snd (projr demo_scrape))) \<and>
   crawl_site (demo_env demo_pages)
     ((WebScraper (demo_env demo_pages) 10 0.5)\<lparr>visited_urls := {|''https://example.com/''|}\<rparr>)
     [] ''example.com''
   = Inr ([''https://example.com/''],
          (WebScraper (demo_env demo_pages) 10 0.5)\<lparr>visited_urls := {|''https://example.com/''|}\<rparr>,
          [])"
proof -
  let ?e = "demo_env demo_pages"
  let ?s0 = "WebScraper ?e 10 0.5"
  let ?s1 = "?s0\<lparr>visited_urls := {|''https://example.com/''|}\<rparr>"
  have run: "scrape_site ?e ?s0 [] ''example.com'' =
      Inr (fst (projr demo_scrape), fst (snd (projr demo_scrape)), snd (snd (projr demo_scrape)))"
    using not_isl_Inr [OF demo_scrape_runs] by (simp add: demo_scrape_def)
  have n: "normalize_url (host_ok ?e) ''example.com'' = Inr ''https://example.com/''"
    by code_simp
  have p: "urlparse (host_ok ?e) ''https://example.com/'' =
      Inr \<lparr>scheme = ''https'', netloc = ''example.com'', path = ''/'', params = [],
            query = [], fragment = []\<rparr>"
    by code_simp
  have o: "set_order ?e {|''https://example.com/''|} = [''https://example.com/'']"
    by code_simp
  from visited_urls_persist [where e = ?e and s = ?s0 and tr = "[]" and url = "''example.com''"
      and out = "fst (projr demo_scrape)" and s' = "fst (snd (projr demo_scrape))"
      and tr' = "snd (snd (projr demo_scrape))"]
    run
  have a: "visited_urls ?s0 |\<subseteq>| visited_urls (fst (snd (projr demo_scrape)))"
    by simp
  from visited_urls_persist [where e = ?e and s = ?s1 and tr = "[]" and url = "''example.com''"
      and rt = "''https://example.com/''"] n p o
  have "crawl_site ?e ?s1 [] ''example.com'' = Inr ([''https://example.com/''], ?s1, [])"
    by simp
  with a demo_scrape_runs show ?thesis
    by simp
qed

subsection \<open>The order of the records\<close>

text \<open>
  C9, as the specification states it, fails: \<^verbatim>\<open>crawl_site\<close> returns \<^verbatim>\<open>list(found_urls)\<close>, the
  elements of a set in the order of Python's set iteration, which is not the order of
  discovery. Here the crawl visits \<^verbatim>\<open>/z\<close>, the root, and then \<^verbatim>\<open>/a\<close> (its first two
  requests), and the records come out as \<^verbatim>\<open>/a\<close>, \<^verbatim>\<open>/z\<close>.
\<close>

theorem record_order_counterexample: "\<not> isl order_scrape \<and>
   map req_url (take 2 (snd (snd (projr order_scrape)))) =
     [''https://example.com/z'', ''https://example.com/a''] \<and>
   map source_url (items (fst (projr order_scrape))) =
     [''https://example.com/a'', ''https://example.com/z'']"
  by (simp add: order_scrape_def) code_simp


text \<open>
  C9, amended. The records follow the order of the list that \<^verbatim>\<open>crawl_site\<close> returned, which
  is an enumeration of the set of found URLs in the order of set iteration. The records are
  exactly what the extractions of the URLs of that list yield, taken one after the other in
  the order of the list, the failed ones left out; the source URL of each record is the URL
  it was extracted from, so the source URLs of the records are the URLs of the list whose
  extraction succeeded, in the order of the list.
\<close>

theorem items_follow_crawl_list:
  assumes "scrape_site e s tr url = Inr (out, s', tr')"
  shows "\<exists>normalized urls tr1.
           normalize_url (host_ok e) url = Inr normalized \<and>
           crawl_site e s tr normalized = Inr (urls, s', tr1) \<and>
           items out = List.map_filter id (extraction_results e s' tr1 urls) \<and>
           map source_url (items out) =
             map fst (filter (\<lambda>(u, r). r \<noteq> None)
                        (zip urls (extraction_results e s' tr1 urls))) \<and>
           subseq (map source_url (items out)) urls"
proof -
  from assms obtain normalized urls tr1 where
    n: "normalize_url (host_ok e) url = Inr normalized"
    and c: "crawl_site e s tr normalized = Inr (urls, s', tr1)"
    and x: "extract_all e s' tr1 urls [] = (items out, tr')"
    by (rule scrape_site_Inr)
  from extract_all_subseq [OF x] have sub: "subseq (map source_url (items out)) urls"
    by simp
  from x extract_all_results [of e s' tr1 urls "[]"]
  have its: "items out = List.map_filter id (extraction_results e s' tr1 urls)"
    by simp
  with extraction_results_source [of e s' tr1 urls]
  have src: "map source_url (items out) =
      map fst (filter (\<lambda>(u, r). r \<noteq> None) (zip urls (extraction_results e s' tr1 urls)))"
    by simp
  from n c its src sub show ?thesis
    by blast
qed

theorem items_follow_crawl_list_witness:
  "\<not> isl demo_scrape \<and>
   subseq (map source_url (items (fst (projr demo_scrape))))
     (fst (projr (crawl_site (demo_env demo_pages) (WebScraper (demo_env demo_pages) 10 0.5) []
        ''https://example.com/'')))"
proof -
  let ?e = "demo_env demo_pages"
  let ?s0 = "WebScraper ?e 10 0.5"
  have run: "scrape_site ?e ?s0 [] ''example.com'' =
      Inr (fst (projr demo_scrape), fst (snd (projr demo_scrape)), snd (snd (projr demo_scrape)))"
    using not_isl_Inr [OF demo_scrape_runs] by (simp add: demo_scrape_def)
  have n: "normalize_url (host_ok ?e) ''example.com'' = Inr ''https://example.com/''"
    by code_simp
  from items_follow_crawl_list [OF run] n demo_scrape_runs show ?thesis
    by auto
qed

subsection \<open>A root that cannot be normalised or fetched\<close>

text \<open>
  C8, as the specification states it, fails for a root that cannot be fetched: the failed
  request is caught inside \<^verbatim>\<open>crawl_site\<close> and again inside \<^verbatim>\<open>extract_content\<close>, and the
  run ends with status 0 and a file whose list of items is empty.
\<close>

theorem unreachable_root_counterexample:
  "main (demo_env Map.empty) [''scraper.py'', ''example.com''] =
     (0, Some (''_scraped.json'', \<lparr>site = ''https://example.com/'', items = []\<rparr>))"
  by code_simp

text \<open>
  C8, amended. If the root URL cannot be normalised, the process ends with status 1: the
  exception leaves \<^verbatim>\<open>scrape_site\<close>, if an earlier step has not ended the run already. If
  the root URL can be normalised and every request for it fails, the failure is recovered
  where it occurs: with valid arguments, a standard output that takes every message and a
  writable output file, the run ends with status 0 and writes a result whose list of items
  is empty.
\<close>

theorem top_level_failure:
  "(2 \<le> length argv \<and> normalize_url (host_ok e) (argv ! 1) = Inl x \<longrightarrow> fst (main e argv) = 1) \<and>
   (2 \<le> length argv \<and>
    (if length argv > 3 then parse_int e (argv ! 3) else Some 50) = Some mp \<and>
    output_file_for e (argv ! 1) (if length argv > 2 then argv ! 2 else []) = Inr file \<and>
    writable e file \<and>
    normalize_url (host_ok e) (argv ! 1) = Inr n1 \<and>
    normalize_url (host_ok e) n1 = Inr rt \<and>
    urlparse (host_ok e) rt = Inr parsed \<and>
    enumerates (set_order e) \<and> (\<forall>m. can_print e m) \<and>
    (\<forall>tr r. req_url r = rt \<longrightarrow> http_get e tr r = None)
    \<longrightarrow> main e argv = (0, Some (file, \<lparr>site = n1, items = []\<rparr>)))"
proof (intro conjI impI)
  assume "2 \<le> length argv \<and> normalize_url (host_ok e) (argv ! 1) = Inl x"
  then show "fst (main e argv) = 1"
    by (auto simp: main_def scrape_site_def Let_def split: option.splits sum.splits)
next
  assume h: "2 \<le> length argv \<and>
    (if length argv > 3 then parse_int e (argv ! 3) else Some 50) = Some mp \<and>
    output_file_for e (argv ! 1) (if length argv > 2 then argv ! 2 else []) = Inr file \<and>
    writable e file \<and>
    normalize_url (host_ok e) (argv ! 1) = Inr n1 \<and>
    normalize_url (host_ok e) n1 = Inr rt \<and>
    urlparse (host_ok e) rt = Inr parsed \<and>
    enumerates (set_order e) \<and> (\<forall>m. can_print e m) \<and>
    (\<forall>tr r. req_url r = rt \<longrightarrow> http_get e tr r = None)"
  then obtain tr' where
    "scrape_site e (WebScraper e mp 0.5) [] (argv ! 1) =
       Inr (\<lparr>site = n1, items = []\<rparr>, WebScraper e mp 0.5, tr')"
    using scrape_site_root_unreachable [of e "argv ! 1" n1 rt parsed "WebScraper e mp 0.5" "[]"]
    by blast
  with h show "main e argv = (0, Some (file, \<lparr>site = n1, items = []\<rparr>))"
    by (simp add: main_def Let_def)
qed

theorem top_level_failure_witness:
  "fst (main (demo_env Map.empty) [''scraper.py'', ''http://[example.com'']) = 1 \<and>
   main (demo_env Map.empty) [''scraper.py'', ''example.com'', ''out.json''] =
     (0, Some (''out.json'', \<lparr>site = ''https://example.com/'', items = []\<rparr>))"
proof -
  let ?e = "demo_env Map.empty"
  have bad: "normalize_url (host_ok ?e) ''http://[example.com'' = Inl ValueError"
    by code_simp
  have n: "normalize_url (host_ok ?e) ''example.com'' = Inr ''https://example.com/''"
    "normalize_url (host_ok ?e) ''https://example.com/'' = Inr ''https://example.com/''"
    by code_simp+
  have p: "urlparse (host_ok ?e) ''https://example.com/'' =
      Inr \<lparr>scheme = ''https'', netloc = ''example.com'', path = ''/'', params = [],
            query = [], fragment = []\<rparr>"
    by code_simp
  have f: "output_file_for ?e ''example.com'' ''out.json'' = Inr ''out.json''"
    by (simp add: output_file_for_def)
  have w: "writable ?e ''out.json''"
    by (simp add: demo_env_def)
  have d: "\<forall>tr r. req_url r = ''https://example.com/'' \<longrightarrow> http_get ?e tr r = None"
    by (simp add: demo_env_def)
  have cp: "\<forall>m. can_print ?e m"
    by (simp add: demo_env_def)
  from top_level_failure [of "[''scraper.py'', ''http://[example.com'']" ?e ValueError] bad
  have a: "fst (main ?e [''scraper.py'', ''http://[example.com'']) = 1"
    by simp
  from top_level_failure [of "[''scraper.py'', ''example.com'', ''out.json'']" ?e _ 50 "''out.json''"
      "''https://example.com/''" "''https://example.com/''"] n p f w d cp demo_env_enumerates [of Map.empty]
  have "main ?e [''scraper.py'', ''example.com'', ''out.json''] =
     (0, Some (''out.json'', \<lparr>site = ''https://example.com/'', items = []\<rparr>))"
    by simp
  with a show ?thesis by simp
qed

subsection \<open>The title of a record\<close>

text \<open>
  C4, as the specification states it, fails: the third tier takes the text after the last
  \<open>/\<close> of the path, which is empty for a path that ends in \<open>/\<close>, such as the path of a
  normalised root URL. A root page in which no selector matches and whose Markdown has no
  heading line gets the empty title.
\<close>

theorem empty_title_counterexample:
  "demo_item = Some \<lparr>title = [], content = ''https://example.com/b https://example.com/c'',
       content_type = ''blog'', source_url = ''https://example.com/''\<rparr>"
  by (simp add: demo_item_def) code_simp

text \<open>
  C4, amended. For every page whose extraction succeeds, the title is resolved by the chain
  in order, a tier that yields no text or the empty text handing over to the next: the
  stripped text of the first element found among the selectors \<^verbatim>\<open>h1\<close>, \<^verbatim>\<open>title\<close>,
  \<^verbatim>\<open>.post-title\<close>, \<^verbatim>\<open>.entry-title\<close>, \<^verbatim>\<open>.article-title\<close>; else the stripped rest of the
  first line of the Markdown that begins with \<^verbatim>\<open># \<close>; else the final path segment of the
  URL with hyphens and underscores replaced by blanks, title-cased. The title is non-empty
  unless the third tier is reached and the final path segment is empty.
\<close>

theorem extract_content_title:
  assumes "extract_content e s tr url = (Some it, tr')"
  shows "\<exists>html extracted.
     http_get e tr \<lparr>req_url = url, req_headers = session_headers s, req_timeout = 15\<rparr> = Some html \<and>
     trafilatura_extract e html = Some extracted \<and> extracted \<noteq> [] \<and>
     (case first_nonempty [select_title e html title_selectors,
                           heading_title (split_chr CHR 0x0A extracted)] of
        Some t \<Rightarrow> title it = points t \<and> t \<noteq> [] \<and> title it \<noteq> []
      | None \<Rightarrow>
          (\<exists>parsed. urlparse (host_ok e) url = Inr parsed \<and>
             title it = url_title (path parsed) \<and>
             (title it = [] \<longleftrightarrow> last (split_chr CHR ''/'' (path parsed)) = [])))"
proof -
  let ?r = "\<lparr>req_url = url, req_headers = session_headers s, req_timeout = 15\<rparr>"
  from assms obtain html where get: "http_get e tr ?r = Some html"
    by (auto simp: extract_content_def session_get_def Let_def split: option.splits)
  from assms get obtain extracted where ex: "trafilatura_extract e html = Some extracted"
    by (auto simp: extract_content_def session_get_def Let_def split: option.splits)
  from assms get ex have ne: "extracted \<noteq> []"
    by (auto simp: extract_content_def session_get_def Let_def split: if_splits)
  let ?t1 = "select_title e html title_selectors"
  let ?h = "heading_title (split_chr CHR 0x0A extracted)"
  have chain: "case first_nonempty [?t1, ?h] of
        Some t \<Rightarrow> title it = points t \<and> t \<noteq> [] \<and> title it \<noteq> []
      | None \<Rightarrow>
          (\<exists>parsed. urlparse (host_ok e) url = Inr parsed \<and>
             title it = url_title (path parsed) \<and>
             (title it = [] \<longleftrightarrow> last (split_chr CHR ''/'' (path parsed)) = []))"
    using assms get ex ne
    by (cases ?t1; cases ?h)
       (auto simp: extract_content_def session_get_def Let_def no_title_def url_title_empty
             points_def split: if_splits sum.splits)
  from get ex ne chain show ?thesis
    by blast
qed

lemma titled_item_sources:
  "map_option source_url (fst (titled_item ''https://example.com/one'')) =
     Some ''https://example.com/one''"
  "map_option source_url (fst (titled_item ''https://example.com/two'')) =
     Some ''https://example.com/two''"
  "map_option source_url (fst (titled_item ''https://example.com/third-page_x'')) =
     Some ''https://example.com/third-page_x''"
  unfolding titled_item_def by code_simp+

lemma titled_env_fetch:
  "http_get titled_env tr r = titled_pages (req_url r)"
  "trafilatura_extract titled_env html = Some html"
  "host_ok titled_env = (\<lambda>h. False)"
  by (simp_all add: titled_env_def demo_env_def)

lemma titled_chains:
  "first_nonempty [select_title titled_env ''page one'' title_selectors,
                   heading_title (split_chr CHR 0x0A ''page one'')] = Some ''Page One''"
  "first_nonempty
     [select_title titled_env (''intro'' @ [CHR 0x0A] @ ''#  Second Page '' @ [CHR 0x0A] @ ''body'')
        title_selectors,
      heading_title (split_chr CHR 0x0A
        (''intro'' @ [CHR 0x0A] @ ''#  Second Page '' @ [CHR 0x0A] @ ''body''))] = Some ''Second Page''"
  "first_nonempty [select_title titled_env ''plain'' title_selectors,
                   heading_title (split_chr CHR 0x0A ''plain'')] = None"
  by code_simp+

lemma titled_third:
  "urlparse (\<lambda>h. False) ''https://example.com/third-page_x'' =
     Inr \<lparr>scheme = ''https'', netloc = ''example.com'', path = ''/third-page_x'', params = [],
           query = [], fragment = []\<rparr>"
  "url_title ''/third-page_x'' = points ''Third Page X''"
  by code_simp+

theorem extract_content_title_witness:
  "map_option title (fst (titled_item ''https://example.com/one'')) = Some (points ''Page One'') \<and>
   map_option title (fst (titled_item ''https://example.com/two'')) = Some (points ''Second Page'') \<and>
   map_option title (fst (titled_item ''https://example.com/third-page_x''))
     = Some (points ''Third Page X'')"
proof -
  let ?s = "WebScraper titled_env 10 0.5"
  have run: "\<exists>it. extract_content titled_env ?s [] u = (Some it, snd (titled_item u)) \<and>
      fst (titled_item u) = Some it"
    if "map_option source_url (fst (titled_item u)) = Some u" for u
    using that by (cases "extract_content titled_env ?s [] u") (auto simp: titled_item_def)
  have one: "map_option title (fst (titled_item ''https://example.com/one'')) = Some (points ''Page One'')"
  proof -
    from run [OF titled_item_sources(1)] obtain it where
      r: "extract_content titled_env ?s [] ''https://example.com/one'' =
            (Some it, snd (titled_item ''https://example.com/one''))"
      and f: "fst (titled_item ''https://example.com/one'') = Some it"
      by blast
    from extract_content_title [OF r] titled_chains(1) have "title it = points ''Page One''"
      by (auto simp: titled_env_fetch titled_pages_def)
    with f show ?thesis by simp
  qed
  have two: "map_option title (fst (titled_item ''https://example.com/two'')) = Some (points ''Second Page'')"
  proof -
    from run [OF titled_item_sources(2)] obtain it where
      r: "extract_content titled_env ?s [] ''https://example.com/two'' =
            (Some it, snd (titled_item ''https://example.com/two''))"
      and f: "fst (titled_item ''https://example.com/two'') = Some it"
      by blast
    from extract_content_title [OF r] titled_chains(2) have "title it = points ''Second Page''"
      by (auto simp: titled_env_fetch titled_pages_def)
    with f show ?thesis by simp
  qed
  have three: "map_option title (fst (titled_item ''https://example.com/third-page_x''))
      = Some (points ''Third Page X'')"
  proof -
    from run [OF titled_item_sources(3)] obtain it where
      r: "extract_content titled_env ?s [] ''https://example.com/third-page_x'' =
            (Some it, snd (titled_item ''https://example.com/third-page_x''))"
      and f: "fst (titled_item ''https://example.com/third-page_x'') = Some it"
      by blast
    from extract_content_title [OF r] titled_chains(3) titled_third
    have "title it = points ''Third Page X''"
      by (auto simp: titled_env_fetch titled_pages_def)
    with f show ?thesis by simp
  qed
  from one two three show ?thesis
    by simp
qed

(*CLAIMS*)

end
